theory Spec2Isabelle
  imports Main "HOL-Library.Word"
begin

unbundle bit_operations_syntax

section \<open>Python strings and bytes\<close>

text \<open>
  The fetcher of \<^verbatim>\<open>src/pdf_mcp/url_fetcher.py\<close> works on Python \<^verbatim>\<open>str\<close> and
  \<^verbatim>\<open>bytes\<close> values. Both are modelled by \<^typ>\<open>string\<close>; the string methods the code calls
  are written out below for the ASCII range, which is where URLs, header values and the
  \<^verbatim>\<open>%PDF\<close> marker live.
\<close>

type_synonym bytes = string

text \<open>\<^verbatim>\<open>s.startswith(prefix)\<close> and \<^verbatim>\<open>s.endswith(suffix)\<close>.\<close>

definition startswith :: "string \<Rightarrow> string \<Rightarrow> bool" where
  "startswith s pre = (take (length pre) s = pre)"

definition endswith :: "string \<Rightarrow> string \<Rightarrow> bool" where
  "endswith s suf = (length suf \<le> length s \<and> drop (length s - length suf) s = suf)"

text \<open>\<^verbatim>\<open>sub in s\<close>: \<open>sub\<close> occurs in \<open>s\<close> as a contiguous substring.\<close>

fun str_in :: "string \<Rightarrow> string \<Rightarrow> bool" where
  "str_in sub [] = (sub = [])"
| "str_in sub (c # cs) = (startswith (c # cs) sub \<or> str_in sub cs)"

text \<open>\<^verbatim>\<open>s.lower()\<close>, one character at a time: \<^verbatim>\<open>A\<close>..\<^verbatim>\<open>Z\<close> move to \<^verbatim>\<open>a\<close>..\<^verbatim>\<open>z\<close>.\<close>

definition lower_char :: "char \<Rightarrow> char" where
  "lower_char c =
     (let n = (of_char c :: nat) in if 65 \<le> n \<and> n \<le> 90 then char_of (n + 32) else c)"

definition lower :: "string \<Rightarrow> string" where
  "lower s = map lower_char s"

text \<open>\<^verbatim>\<open>c.isalnum()\<close>: a digit or a letter.\<close>

definition isalnum :: "char \<Rightarrow> bool" where
  "isalnum c =
     (let n = (of_char c :: nat) in
      (48 \<le> n \<and> n \<le> 57) \<or> (65 \<le> n \<and> n \<le> 90) \<or> (97 \<le> n \<and> n \<le> 122))"

text \<open>\<^verbatim>\<open>os.path.basename(p)\<close>: what follows the last \<^verbatim>\<open>/\<close> of \<open>p\<close>.\<close>

definition basename :: "string \<Rightarrow> string" where
  "basename p = rev (takeWhile (\<lambda>c. c \<noteq> CHR ''/'') (rev p))"

text \<open>
  \<^verbatim>\<open>hexdigest()\<close> of a 256-bit digest: its 64 hexadecimal digits, the most significant
  first, in lower case.
\<close>

definition hexdigit :: "nat \<Rightarrow> char" where
  "hexdigit n = ''0123456789abcdef'' ! n"

definition hexdigest :: "256 word \<Rightarrow> string" where
  "hexdigest w = map (\<lambda>i. hexdigit (unat (drop_bit (4 * (63 - i)) w AND 15))) [0..<64]"

section \<open>Data model\<close>

text \<open>A \<^verbatim>\<open>pathlib.Path\<close> is the list of its components; \<^verbatim>\<open>d / name\<close> appends one.\<close>

type_synonym fs_path = "string list"

text \<open>What the code reads of \<^verbatim>\<open>urlparse(url)\<close>.\<close>

record parse_result =
  scheme :: string
  hostname :: "string option"
  path :: string

text \<open>What the code reads of an \<^verbatim>\<open>ipaddress\<close> object.\<close>

record ipaddr =
  is_private :: bool
  is_loopback :: bool
  is_link_local :: bool
  is_reserved :: bool
  is_multicast :: bool

text \<open>
  A streamed HTTP response. \<open>raises_for_status\<close> tells whether
  \<^verbatim>\<open>response.raise_for_status()\<close> raises; the two header fields are
  \<^verbatim>\<open>headers.get("content-length")\<close> and \<^verbatim>\<open>headers.get("content-type")\<close>;
  \<open>iter_bytes\<close> is what the body iterator yields, chunk after chunk, a \<open>ReadError\<close> being a
  transport failure in the middle of the body.
\<close>

datatype chunk = Chunk bytes | ReadError

record response =
  is_redirect :: bool
  next_request :: "string option"
  raises_for_status :: bool
  content_length :: "string option"
  content_type :: "string option"
  iter_bytes :: "chunk list"

datatype stream_result = ConnectError | Response response

text \<open>
  The trace is a history variable: it records, in order, every call the fetcher makes to the
  resolver (\<open>Resolve\<close>, one per \<^verbatim>\<open>socket.getaddrinfo\<close>), to the HTTP client (\<open>Connect\<close>, one
  per \<^verbatim>\<open>client.stream("GET", url)\<close>) and to the body iterator (\<open>ReadChunk\<close>, one per chunk
  taken from \<^verbatim>\<open>response.iter_bytes\<close>, with its size).
\<close>

datatype event = Resolve string | Connect string | ReadChunk nat

text \<open>
  Faults of the disk when the downloaded body is saved: \<^verbatim>\<open>os.open\<close> raises, or
  \<^verbatim>\<open>os.write\<close> raises after some bytes have reached the file.
\<close>

datatype disk_fault = NoFault | OpenFails | WriteFails nat

text \<open>
  Everything outside the fetcher. The first four fields are library functions:
  \<^verbatim>\<open>urlparse\<close>, \<^verbatim>\<open>hashlib.sha256(url.encode()).digest()\<close>, \<^verbatim>\<open>ipaddress.ip_address\<close>
  (\<open>None\<close>: it raises \<^verbatim>\<open>ValueError\<close>) and \<^verbatim>\<open>int\<close> on a header value (\<open>None\<close>: it raises
  \<^verbatim>\<open>ValueError\<close>). The resolver and the HTTP servers may answer differently as time passes,
  so they read the trace so far: \<open>getaddrinfo\<close> gives the address strings of a host name
  (\<open>None\<close>: the lookup raises), \<open>client_stream\<close> the response to a GET. The last two say
  for which paths \<^verbatim>\<open>Path.unlink\<close> raises \<^verbatim>\<open>OSError\<close> and how saving a file goes wrong.
\<close>

record env =
  urlparse :: "string \<Rightarrow> parse_result"
  sha256 :: "string \<Rightarrow> 256 word"
  ip_address :: "string \<Rightarrow> ipaddr option"
  int_of_str :: "string \<Rightarrow> int option"
  getaddrinfo :: "event list \<Rightarrow> string \<Rightarrow> string list option"
  client_stream :: "event list \<Rightarrow> string \<Rightarrow> stream_result"
  unlink_fails :: "fs_path \<Rightarrow> bool"
  write_fault :: "fs_path \<Rightarrow> disk_fault"

text \<open>
  The \<^verbatim>\<open>URLFetcher\<close> object (\<open>cache_dir\<close>, \<open>url_to_path\<close>) together with the file system it
  works on (\<open>files\<close>, an association list from paths to contents, read through
  \<^const>\<open>map_of\<close>) and the trace. The \<^verbatim>\<open>timeout\<close> field is real time and is left out.
\<close>

record state =
  cache_dir :: fs_path
  url_to_path :: "string \<rightharpoonup> fs_path"
  files :: "(fs_path \<times> bytes) list"
  trace :: "event list"

text \<open>
  The exceptions of the code, one constructor per \<^verbatim>\<open>raise\<close>. All are \<^verbatim>\<open>ValueError\<close> in
  the source but \<open>TransportError\<close> (\<^verbatim>\<open>httpx.HTTPError\<close>) and \<open>OSError\<close>. The message
  of \<open>PrivateAddress\<close> is "URL resolves to a private/reserved IP address and is blocked";
  the code raises it too when the host name cannot be resolved.
\<close>

datatype block_reason = Scheme | NoHost | Localhost | PrivateAddress

datatype size_check = Declared | Streamed

datatype error =
    BlockedURL block_reason
  | RedirectNoTarget
  | TransportError
  | BadContentLength
  | TooLarge size_check
  | NotAPDF
  | TooManyRedirects
  | OSError

definition MAX_DOWNLOAD_SIZE :: int where
  "MAX_DOWNLOAD_SIZE = 100 * 1024 * 1024"

definition MAX_REDIRECTS :: nat where
  "MAX_REDIRECTS = 10"

section \<open>SSRF guard\<close>

text \<open>
  The body of the loop of \<^verbatim>\<open>_is_private_ip\<close>: an address string counts as dangerous when
  \<^verbatim>\<open>ipaddress.ip_address\<close> raises on it or when one of the five flags is set. Then the loop
  over the resolved addresses, which stops at the first dangerous one.
\<close>

definition dangerous :: "env \<Rightarrow> string \<Rightarrow> bool" where
  "dangerous env ip_str =
     (case ip_address env ip_str of
        None \<Rightarrow> True
      | Some ip \<Rightarrow>
          is_private ip \<or> is_loopback ip \<or> is_link_local ip \<or> is_reserved ip \<or> is_multicast ip)"

fun addr_loop :: "env \<Rightarrow> string list \<Rightarrow> bool" where
  "addr_loop env [] = False"
| "addr_loop env (ip_str # rest) = (if dangerous env ip_str then True else addr_loop env rest)"

definition is_private_ip :: "env \<Rightarrow> event list \<Rightarrow> string \<Rightarrow> bool \<times> event list" where
  "is_private_ip env tr host =
     (case getaddrinfo env tr host of
        None \<Rightarrow> (True, tr @ [Resolve host])
      | Some addr_infos \<Rightarrow> (addr_loop env addr_infos, tr @ [Resolve host]))"

definition validate_url :: "env \<Rightarrow> event list \<Rightarrow> string \<Rightarrow> (error + unit) \<times> event list" where
  "validate_url env tr url =
     (let parsed = urlparse env url in
      if scheme parsed \<notin> set [''http'', ''https''] then (Inl (BlockedURL Scheme), tr)
      else
        case hostname parsed of
          None \<Rightarrow> (Inl (BlockedURL NoHost), tr)
        | Some host \<Rightarrow>
            if host = [] then (Inl (BlockedURL NoHost), tr)
            else if host \<in> set [''localhost'', ''127.0.0.1'', ''::1'', ''0.0.0.0'']
            then (Inl (BlockedURL Localhost), tr)
            else
              case is_private_ip env tr host of
                (True, tr') \<Rightarrow> (Inl (BlockedURL PrivateAddress), tr')
              | (False, tr') \<Rightarrow> (Inr (), tr'))"

section \<open>Download cache\<close>

definition get_cache_filename :: "env \<Rightarrow> string \<Rightarrow> string" where
  "get_cache_filename env url =
     (let url_hash = take 16 (hexdigest (sha256 env url));
          parsed = urlparse env url;
          p = path parsed
      in if endswith p ''.pdf''
         then
           let original_name = basename p;
               safe_name = filter (\<lambda>c. isalnum c \<or> c \<in> set ''._-'') original_name
           in url_hash @ ''_'' @ safe_name
         else url_hash @ ''.pdf'')"

text \<open>\<^verbatim>\<open>path.exists()\<close>, writing a whole file, and \<^verbatim>\<open>path.unlink()\<close>.\<close>

definition fs_exists :: "(fs_path \<times> bytes) list \<Rightarrow> fs_path \<Rightarrow> bool" where
  "fs_exists fs p = (map_of fs p \<noteq> None)"

definition fs_write :: "fs_path \<Rightarrow> bytes \<Rightarrow> (fs_path \<times> bytes) list \<Rightarrow> (fs_path \<times> bytes) list" where
  "fs_write p c fs = (p, c) # filter (\<lambda>e. fst e \<noteq> p) fs"

definition fs_unlink :: "fs_path \<Rightarrow> (fs_path \<times> bytes) list \<Rightarrow> (fs_path \<times> bytes) list" where
  "fs_unlink p fs = filter (\<lambda>e. fst e \<noteq> p) fs"

text \<open>
  \<^verbatim>\<open>d.glob("*.pdf")\<close>: the entries directly inside \<open>d\<close> whose name ends in \<^verbatim>\<open>.pdf\<close>.
\<close>

definition glob_pdf :: "fs_path \<Rightarrow> (fs_path \<times> bytes) list \<Rightarrow> fs_path list" where
  "glob_pdf d fs =
     remdups (filter (\<lambda>p. p \<noteq> [] \<and> butlast p = d \<and> endswith (last p) ''.pdf'') (map fst fs))"

definition get_local_path :: "env \<Rightarrow> state \<Rightarrow> string \<Rightarrow> fs_path option \<times> state" where
  "get_local_path env s url =
     (case (case url_to_path s url of
              Some p \<Rightarrow> if fs_exists (files s) p then Some p else None
            | None \<Rightarrow> None) of
        Some p \<Rightarrow> (Some p, s)
      | None \<Rightarrow>
          let filename = get_cache_filename env url;
              p = cache_dir s @ [filename]
          in if fs_exists (files s) p
             then (Some p, s\<lparr>url_to_path := (url_to_path s)(url \<mapsto> p)\<rparr>)
             else (None, s))"

section \<open>Remote fetcher\<close>

text \<open>
  The streaming loop of \<^verbatim>\<open>fetch\<close> over \<^verbatim>\<open>response.iter_bytes(chunk_size=8192)\<close>, with its
  running total and the chunks kept so far.
\<close>

fun read_body :: "chunk list \<Rightarrow> int \<Rightarrow> bytes list \<Rightarrow> event list \<Rightarrow> (error + bytes list) \<times> event list" where
  "read_body [] total_size chunks tr = (Inr chunks, tr)"
| "read_body (ReadError # rest) total_size chunks tr = (Inl TransportError, tr)"
| "read_body (Chunk c # rest) total_size chunks tr =
     (let total_size' = total_size + int (length c);
          tr' = tr @ [ReadChunk (length c)]
      in if total_size' > MAX_DOWNLOAD_SIZE then (Inl (TooLarge Streamed), tr')
         else read_body rest total_size' (chunks @ [c]) tr')"

text \<open>
  What \<^verbatim>\<open>fetch\<close> does with a response that is not a redirect: status, declared size,
  body, content type.
\<close>

definition receive :: "env \<Rightarrow> response \<Rightarrow> event list \<Rightarrow> (error + bytes) \<times> event list" where
  "receive env r tr =
     (if raises_for_status r then (Inl TransportError, tr)
      else
        case (case content_length r of
                None \<Rightarrow> Inr ()
              | Some cl \<Rightarrow>
                  if cl = [] then Inr ()
                  else
                    case int_of_str env cl of
                      None \<Rightarrow> Inl BadContentLength
                    | Some n \<Rightarrow> if n > MAX_DOWNLOAD_SIZE then Inl (TooLarge Declared) else Inr ()) of
          Inl e \<Rightarrow> (Inl e, tr)
        | Inr _ \<Rightarrow>
            case read_body (iter_bytes r) 0 [] tr of
              (Inl e, tr') \<Rightarrow> (Inl e, tr')
            | (Inr chunks, tr') \<Rightarrow>
                let content = concat chunks;
                    ctype = (case content_type r of None \<Rightarrow> [] | Some v \<Rightarrow> v)
                in if \<not> str_in ''pdf'' (lower ctype)
                   then
                     if \<not> startswith content ''%PDF'' then (Inl NotAPDF, tr')
                     else (Inr content, tr')
                   else (Inr content, tr'))"

text \<open>
  The loop \<^verbatim>\<open>for _ in range(MAX_REDIRECTS)\<close> with its \<^verbatim>\<open>else\<close> branch; the first argument
  counts the iterations that are left.
\<close>

fun redirect_loop :: "env \<Rightarrow> nat \<Rightarrow> string \<Rightarrow> event list \<Rightarrow> (error + bytes) \<times> event list" where
  "redirect_loop env 0 current_url tr = (Inl TooManyRedirects, tr)"
| "redirect_loop env (Suc n) current_url tr =
     (case client_stream env tr current_url of
        ConnectError \<Rightarrow> (Inl TransportError, tr @ [Connect current_url])
      | Response r \<Rightarrow>
          if is_redirect r then
            case next_request r of
              None \<Rightarrow> (Inl RedirectNoTarget, tr @ [Connect current_url])
            | Some redirect_url \<Rightarrow>
                (case validate_url env (tr @ [Connect current_url]) redirect_url of
                   (Inl e, tr') \<Rightarrow> (Inl e, tr')
                 | (Inr _, tr') \<Rightarrow> redirect_loop env n redirect_url tr')
          else receive env r (tr @ [Connect current_url]))"

text \<open>
  \<^verbatim>\<open>os.open(..., O_WRONLY | O_CREAT | O_TRUNC, 0o600)\<close>, \<^verbatim>\<open>os.write\<close>, \<^verbatim>\<open>os.close\<close>:
  \<open>True\<close> when no exception was raised.
\<close>

definition os_write_file ::
  "env \<Rightarrow> fs_path \<Rightarrow> bytes \<Rightarrow> (fs_path \<times> bytes) list \<Rightarrow> bool \<times> (fs_path \<times> bytes) list" where
  "os_write_file env p content fs =
     (case write_fault env p of
        OpenFails \<Rightarrow> (False, fs)
      | WriteFails k \<Rightarrow> (False, fs_write p (take k content) fs)
      | NoFault \<Rightarrow> (True, fs_write p content fs))"

definition fetch :: "env \<Rightarrow> state \<Rightarrow> string \<Rightarrow> bool \<Rightarrow> (error + fs_path) \<times> state" where
  "fetch env s url force_refresh =
     (case validate_url env (trace s) url of
        (Inl e, tr1) \<Rightarrow> (Inl e, s\<lparr>trace := tr1\<rparr>)
      | (Inr _, tr1) \<Rightarrow>
          case (if \<not> force_refresh then get_local_path env (s\<lparr>trace := tr1\<rparr>) url
                else (None, s\<lparr>trace := tr1\<rparr>)) of
            (Some cached_path, s2) \<Rightarrow> (Inr cached_path, s2)
          | (None, s2) \<Rightarrow>
              case redirect_loop env MAX_REDIRECTS url (trace s2) of
                (Inl e, tr3) \<Rightarrow> (Inl e, s2\<lparr>trace := tr3\<rparr>)
              | (Inr content, tr3) \<Rightarrow>
                  let filename = get_cache_filename env url;
                      local_path = cache_dir s2 @ [filename]
                  in case os_write_file env local_path content (files s2) of
                       (False, fs') \<Rightarrow> (Inl OSError, s2\<lparr>trace := tr3, files := fs'\<rparr>)
                     | (True, fs') \<Rightarrow>
                         (Inr local_path,
                          s2\<lparr>trace := tr3, files := fs',
                             url_to_path := (url_to_path s2)(url \<mapsto> local_path)\<rparr>))"

text \<open>The loop of \<^verbatim>\<open>clear_cache\<close> over the paths the glob gave.\<close>

fun unlink_loop ::
  "env \<Rightarrow> fs_path list \<Rightarrow> nat \<Rightarrow> (fs_path \<times> bytes) list \<Rightarrow> nat \<times> (fs_path \<times> bytes) list" where
  "unlink_loop env [] count fs = (count, fs)"
| "unlink_loop env (p # ps) count fs =
     (if unlink_fails env p then unlink_loop env ps count fs
      else unlink_loop env ps (count + 1) (fs_unlink p fs))"

definition clear_cache :: "env \<Rightarrow> state \<Rightarrow> nat \<times> state" where
  "clear_cache env s =
     (case unlink_loop env (glob_pdf (cache_dir s) (files s)) 0 (files s) of
        (count, fs') \<Rightarrow> (count, s\<lparr>files := fs', url_to_path := Map.empty\<rparr>))"

text \<open>
  \<^verbatim>\<open>get_cache_stats\<close>: the number of cached files and their total size in bytes (the
  megabyte figure is a rounded float and is left out).
\<close>

definition get_cache_stats :: "state \<Rightarrow> nat \<times> nat" where
  "get_cache_stats s =
     (let fs = glob_pdf (cache_dir s) (files s)
      in (length fs, sum_list (map (\<lambda>p. case map_of (files s) p of Some c \<Rightarrow> length c | None \<Rightarrow> 0) fs)))"

section \<open>A world of examples\<close>

text \<open>
  A concrete environment for the scenarios of the specification and of the test suite: the
  hosts under \<^verbatim>\<open>example.com\<close> are public, \<^verbatim>\<open>internal-server.corp\<close> resolves to a
  private address, \<^verbatim>\<open>unknown-host\<close> does not resolve. \<open>world_urlparse\<close> agrees with
  \<^verbatim>\<open>urlparse\<close> on the URLs of these origins, and \<open>digests\<close> holds their SHA-256 digests.
\<close>

definition origins :: "(string \<times> string) list" where
  "origins =
     [(''https'', ''example.com''), (''https'', ''cdn.example.com''),
      (''https'', ''public.example.com''), (''http'', ''169.254.169.254''),
      (''https'', ''localhost''), (''https'', ''internal-server.corp''),
      (''https'', ''unknown-host''), (''ftp'', ''example.com''), (''https'', [])]"

definition world_urlparse :: "string \<Rightarrow> parse_result" where
  "world_urlparse u =
     (case find (\<lambda>(sch, host). startswith u (sch @ ''://'' @ host @ ''/'')) origins of
        Some (sch, host) \<Rightarrow>
          \<lparr>scheme = sch,
           hostname = (if host = [] then None else Some host),
           path = takeWhile (\<lambda>c. c \<notin> set ''?#'') (drop (length sch + 3 + length host) u)\<rparr>
      | None \<Rightarrow> \<lparr>scheme = [], hostname = None, path = u\<rparr>)"

definition digests :: "(string \<times> 256 word) list" where
  "digests =
     [(''https://example.com/old.pdf'',
       0x73f6027ddc92e918985e62edac8583e056f88ab0636fb6e3b7ab7b306309e953),
      (''https://public.example.com/paper.pdf'',
       0xfa4be85949872826c602126af8dcac4195fbbd5eb8240f6e017f8a8ba99f4a87),
      (''https://example.com/huge.pdf'',
       0x3d82d0a7db871129807f9652decf40bd376f96a08217b6823ea4c5e32b91fb6e),
      (''https://example.com/stream.pdf'',
       0xd35348fda55e27fbe9c77b65865107259e18cdd7fe4ad43ac9c0eed840d01576),
      (''https://example.com/notapdf.html'',
       0x1ba68d368e57a159b40ce3e285241a40be4e8905bf5296c9ead406928e60b5c0),
      (''https://example.com/api/download?id=123'',
       0x27282d117d4a84c052e9829e2008a96c3eecf66a5911d1a5be4d531ea3b79af7),
      (''https://example.com/hop0'',
       0x7546f7438dcf15017a5a793bbdefeee5c6c20ac88d5553e21950d6524f889f45),
      (''https://example.com/hop1'',
       0x600337ca3b1fefe168546f716ab6c8ec2a774f4ad45de613441e54e8633fea27),
      (''https://example.com/loop.pdf'',
       0xffccd47c2a9015763137f15db7c0dff8516ee352dc8c9ecac1ed1e8dca571022),
      (''https://example.com/path/my%20doc(1).pdf'',
       0x7bcb44a9a933b346d9633a27e424accc6fb4109bd42dc36642fe652d97d6b903),
      (''https://example.com/upper'',
       0xe8ad8603de52a25d9a2f03a15c61ca1b8a9f7b0bac40d36518b91f7788ff156f)]"

definition public_ip :: ipaddr where
  "public_ip =
     \<lparr>is_private = False, is_loopback = False, is_link_local = False, is_reserved = False,
      is_multicast = False\<rparr>"

definition pdf_bytes :: bytes where
  "pdf_bytes = ''%PDF-1.4''"

definition ok_response :: "string option \<Rightarrow> string option \<Rightarrow> chunk list \<Rightarrow> response" where
  "ok_response clen ctype chunks =
     \<lparr>is_redirect = False, next_request = None, raises_for_status = False,
      content_length = clen, content_type = ctype, iter_bytes = chunks\<rparr>"

definition redirect_to :: "string \<Rightarrow> response" where
  "redirect_to target =
     \<lparr>is_redirect = True, next_request = Some target, raises_for_status = True,
      content_length = Some ''18'', content_type = Some ''text/html'',
      iter_bytes = [Chunk ''<html>moved</html>'']\<rparr>"

text \<open>
  The chain \<^verbatim>\<open>/hop0\<close>, ..., \<^verbatim>\<open>/hop10\<close>: each of the first ten redirects to the next, the
  last serves a PDF.
\<close>

definition hop :: "nat \<Rightarrow> string" where
  "hop i = ''https://example.com/hop'' @ (if i < 10 then [char_of (48 + i)] else ''10'')"

definition pages :: "(string \<times> response) list" where
  "pages =
     [(''https://example.com/old.pdf'', redirect_to ''https://cdn.example.com/new.pdf''),
      (''https://cdn.example.com/new.pdf'',
       ok_response None (Some ''application/pdf'') [Chunk pdf_bytes]),
      (''https://public.example.com/paper.pdf'',
       redirect_to ''http://169.254.169.254/latest/meta-data/''),
      (''http://169.254.169.254/latest/meta-data/'',
       ok_response None (Some ''text/plain'') [Chunk ''ami-id'']),
      (''https://example.com/huge.pdf'',
       ok_response (Some ''200000000'') (Some ''application/pdf'') [Chunk pdf_bytes]),
      (''https://example.com/notapdf.html'',
       ok_response None (Some ''text/html'') [Chunk ''<html>Not a PDF</html>'']),
      (''https://example.com/api/download?id=123'',
       ok_response (Some ''8'') (Some ''application/octet-stream'') [Chunk pdf_bytes]),
      (''https://example.com/upper'',
       ok_response None (Some ''Application/PDF'') [Chunk ''no marker'']),
      (''https://example.com/loop.pdf'', redirect_to ''https://example.com/loop.pdf'')]
     @ map (\<lambda>i. (hop i, redirect_to (hop (Suc i)))) [0..<10]
     @ [(hop 10, ok_response None (Some ''application/pdf'') [Chunk pdf_bytes])]"

definition world :: env where
  "world =
     \<lparr>urlparse = world_urlparse,
      sha256 = (\<lambda>u. case map_of digests u of Some d \<Rightarrow> d | None \<Rightarrow> 0),
      ip_address =
        (\<lambda>a. if a = ''93.184.216.34'' then Some public_ip
             else if a = ''169.254.169.254''
             then Some (public_ip\<lparr>is_private := True, is_link_local := True\<rparr>)
             else if a = ''10.0.0.1'' then Some (public_ip\<lparr>is_private := True\<rparr>)
             else None),
      int_of_str =
        (\<lambda>v. if v = ''200000000'' then Some 200000000
             else if v = ''18'' then Some 18
             else if v = ''8'' then Some 8
             else None),
      getaddrinfo =
        (\<lambda>tr h. if h \<in> set [''example.com'', ''cdn.example.com'', ''public.example.com'']
                then Some [''93.184.216.34'']
                else if h = ''169.254.169.254'' then Some [''169.254.169.254'']
                else if h = ''internal-server.corp'' then Some [''10.0.0.1'']
                else None),
      client_stream =
        (\<lambda>tr u. case map_of pages u of Some r \<Rightarrow> Response r | None \<Rightarrow> ConnectError),
      unlink_fails = (\<lambda>p. p \<noteq> [] \<and> last p = ''locked.pdf''),
      write_fault = (\<lambda>p. NoFault)\<rparr>"

text \<open>
  The same world with a resolver that answers until the first chunk of a body has been
  read and fails from then on, as when the network goes away after a download.
\<close>

definition world_offline :: env where
  "world_offline =
     world\<lparr>getaddrinfo :=
       (\<lambda>tr h. if list_ex (\<lambda>e. case e of ReadChunk k \<Rightarrow> True | _ \<Rightarrow> False) tr then None
               else getaddrinfo world tr h)\<rparr>"

text \<open>
  The same world with one more page, whose body comes in 12801 chunks of 8192 bytes and has
  no \<^verbatim>\<open>Content-Length\<close>: the first 12800 chunks fill the budget of 100 MB exactly.
\<close>

definition big_chunk :: bytes where
  "big_chunk = replicate 8192 CHR ''x''"

definition world_stream :: env where
  "world_stream =
     world\<lparr>client_stream :=
       (\<lambda>tr u. if u = ''https://example.com/stream.pdf''
               then Response (ok_response None (Some ''application/pdf'')
                      (map Chunk (replicate 12801 big_chunk)))
               else client_stream world tr u)\<rparr>"

text \<open>A fresh fetcher on an empty cache directory.\<close>

definition s0 :: state where
  "s0 =
     \<lparr>cache_dir = [''tmp'', ''pdf-mcp'', ''downloads''], url_to_path = Map.empty, files = [],
      trace = []\<rparr>"

text \<open>
  A fetcher whose index entry names a file that is gone; one with a cached file on disk and
  an empty index; and a cache directory holding three cached downloads, one PDF that cannot
  be deleted and one file that is no PDF.
\<close>

definition s_stale :: state where
  "s_stale =
     s0\<lparr>url_to_path := [''https://example.com/old.pdf'' \<mapsto> cache_dir s0 @ [''gone.pdf'']]\<rparr>"

definition s_disk :: state where
  "s_disk = s0\<lparr>files := [(cache_dir s0 @ [''73f6027ddc92e918_old.pdf''], pdf_bytes)]\<rparr>"

definition s_full :: state where
  "s_full =
     s0\<lparr>url_to_path := [''https://example.com/old.pdf'' \<mapsto> cache_dir s0 @ [''73f6027ddc92e918_old.pdf'']],
        files :=
          [(cache_dir s0 @ [''73f6027ddc92e918_old.pdf''], pdf_bytes),
           (cache_dir s0 @ [''27282d117d4a84c0.pdf''], pdf_bytes),
           (cache_dir s0 @ [''600337ca3b1fefe1.pdf''], pdf_bytes),
           (cache_dir s0 @ [''locked.pdf''], pdf_bytes),
           (cache_dir s0 @ [''notes.txt''], ''hello'')]\<rparr>"

section \<open>The order of events\<close>

text \<open>
  What the fetcher may do next, given the trace \<open>h\<close> so far: it may always ask the
  resolver; it may connect to a URL only when \<open>h\<close> ends with a run of the guard on that
  URL which passed; it may take a chunk only from the body of the response to the last
  connection, and only if that response is no redirect. A list of events is in order when
  each of them is allowed after those before it.
\<close>

definition allowed :: "env \<Rightarrow> event list \<Rightarrow> event \<Rightarrow> bool" where
  "allowed env h e =
     (case e of
        Resolve host \<Rightarrow> True
      | Connect u \<Rightarrow> (\<exists>before. validate_url env before u = (Inr (), h))
      | ReadChunk k \<Rightarrow>
          (\<exists>pre u ks resp. h = pre @ Connect u # map ReadChunk ks
             \<and> client_stream env pre u = Response resp \<and> \<not> is_redirect resp))"

fun in_order :: "env \<Rightarrow> event list \<Rightarrow> event list \<Rightarrow> bool" where
  "in_order env h [] = True"
| "in_order env h (e # es) = (allowed env h e \<and> in_order env (h @ [e]) es)"

section \<open>Lemmas on strings and files\<close>

lemma endswith_iff: "endswith s suf \<longleftrightarrow> (\<exists>p. s = p @ suf)"
proof
  assume "endswith s suf"
  then have "s = take (length s - length suf) s @ suf"
    by (metis append_take_drop_id endswith_def)
  then show "\<exists>p. s = p @ suf" ..
next
  assume "\<exists>p. s = p @ suf"
  then show "endswith s suf" by (auto simp: endswith_def)
qed

lemma length_hexdigest: "length (hexdigest w) = 64"
  by (simp add: hexdigest_def)

lemma hexdigit_in: "n < 16 \<Longrightarrow> hexdigit n \<in> set ''0123456789abcdef''"
  unfolding hexdigit_def by (rule nth_mem) simp

lemma nibble_less: "unat ((w :: 256 word) AND 15) < 16"
proof -
  have "w AND 15 = take_bit 4 w"
    by (simp add: take_bit_eq_mask mask_eq_exp_minus_1)
  then show ?thesis
    using take_bit_nat_less_exp [of 4 "unat w"] by (simp add: unsigned_take_bit_eq)
qed

lemma set_hexdigest: "set (hexdigest w) \<subseteq> set ''0123456789abcdef''"
  unfolding hexdigest_def using hexdigit_in [OF nibble_less] by auto

lemma set_url_hash: "set (take 16 (hexdigest w)) \<subseteq> set ''0123456789abcdef''"
  using set_hexdigest [of w] set_take_subset [of 16 "hexdigest w"] by blast

lemma basename_pdf: "endswith p ''.pdf'' \<Longrightarrow> endswith (basename p) ''.pdf''"
  by (auto simp: endswith_iff basename_def)

lemma isalnum_pdf: "isalnum CHR ''p''" "isalnum CHR ''d''" "isalnum CHR ''f''"
  by (simp_all add: isalnum_def)

lemma safe_name_pdf:
  assumes "endswith n ''.pdf''"
  shows "endswith (filter (\<lambda>c. isalnum c \<or> c \<in> set ''._-'') n) ''.pdf''"
proof -
  from assms obtain q where "n = q @ ''.pdf''" by (auto simp: endswith_iff)
  then have "filter (\<lambda>c. isalnum c \<or> c \<in> set ''._-'') n
      = filter (\<lambda>c. isalnum c \<or> c \<in> set ''._-'') q @ ''.pdf''"
    by (simp add: isalnum_pdf)
  then show ?thesis by (auto simp: endswith_iff)
qed

lemma get_cache_filename_pdf: "endswith (get_cache_filename env url) ''.pdf''"
proof (cases "endswith (path (urlparse env url)) ''.pdf''")
  case True
  from safe_name_pdf [OF basename_pdf [OF True]] obtain q where
    "filter (\<lambda>c. isalnum c \<or> c \<in> set ''._-'') (basename (path (urlparse env url))) = q @ ''.pdf''"
    by (auto simp: endswith_iff)
  with True have "get_cache_filename env url = (take 16 (hexdigest (sha256 env url)) @ ''_'' @ q) @ ''.pdf''"
    by (simp add: get_cache_filename_def Let_def)
  then show ?thesis unfolding endswith_iff by blast
next
  case False
  then have "get_cache_filename env url = take 16 (hexdigest (sha256 env url)) @ ''.pdf''"
    by (simp add: get_cache_filename_def Let_def)
  then show ?thesis unfolding endswith_iff by blast
qed

lemma get_cache_filename_no_slash: "CHR ''/'' \<notin> set (get_cache_filename env url)"
proof -
  have "CHR ''/'' \<notin> set (take 16 (hexdigest (sha256 env url)))"
    using set_url_hash [of "sha256 env url"] by auto
  moreover have "\<not> isalnum CHR ''/''" by (simp add: isalnum_def)
  ultimately show ?thesis by (auto simp: get_cache_filename_def Let_def)
qed

lemma fs_exists_iff: "fs_exists fs p \<longleftrightarrow> p \<in> fst ` set fs"
  by (simp add: fs_exists_def map_of_eq_None_iff)

lemma set_glob_pdf:
  "set (glob_pdf d fs) = {p \<in> fst ` set fs. p \<noteq> [] \<and> butlast p = d \<and> endswith (last p) ''.pdf''}"
  by (auto simp: glob_pdf_def)

lemma fetch_files:
  assumes "fetch env s url force = (r, s')"
  shows "cache_dir s' = cache_dir s"
    and "files s' = files s
         \<or> (\<exists>c. files s' = fs_write (cache_dir s @ [get_cache_filename env url]) c (files s))"
  using assms
  by (auto simp: fetch_def get_local_path_def os_write_file_def Let_def
      split: prod.splits sum.splits option.splits if_splits bool.splits disk_fault.splits)

lemma unlink_loop_eq:
  "unlink_loop env ps count fs =
     (count + length (filter (\<lambda>p. \<not> unlink_fails env p) ps),
      filter (\<lambda>e. \<not> (fst e \<in> set ps \<and> \<not> unlink_fails env (fst e))) fs)"
proof (induction ps arbitrary: count fs)
  case Nil
  then show ?case by simp
next
  case (Cons p ps)
  have "filter (\<lambda>e. \<not> (fst e \<in> set ps \<and> \<not> unlink_fails env (fst e))) (fs_unlink p fs)
      = filter (\<lambda>e. \<not> ((fst e = p \<or> fst e \<in> set ps) \<and> \<not> unlink_fails env (fst e))) fs"
    if "\<not> unlink_fails env p"
    using that by (auto simp: fs_unlink_def intro: filter_cong)
  with Cons show ?case by (auto intro: filter_cong)
qed

lemma addr_loop_iff: "addr_loop env addrs \<longleftrightarrow> (\<exists>a \<in> set addrs. dangerous env a)"
  by (induction addrs) auto

section \<open>The cache file name\<close>

text \<open>
  Claim C7. The cache file name is a function of the URL string alone: it reads nothing but
  \<^verbatim>\<open>urlparse\<close> and the SHA-256 digest of the URL, neither the fetcher's state nor the
  network. Its first 16 characters are the first 16 hexadecimal digits of the digest. What
  follows is \<^verbatim>\<open>_\<close> and the sanitized basename when the URL's path ends in \<^verbatim>\<open>.pdf\<close>, where
  sanitizing keeps exactly the characters that are alphanumeric or one of \<^verbatim>\<open>._-\<close>, and
  \<^verbatim>\<open>.pdf\<close> otherwise. Two URLs whose digests differ in their first 16 hexadecimal digits get
  different names; how rarely two digests agree there is a property of SHA-256 and lies
  outside this development.
\<close>

theorem get_cache_filename_pure:
  "(urlparse env' = urlparse env \<and> sha256 env' = sha256 env
      \<longrightarrow> get_cache_filename env' url = get_cache_filename env url)
   \<and> take 16 (get_cache_filename env url) = take 16 (hexdigest (sha256 env url))
   \<and> length (take 16 (hexdigest (sha256 env url))) = 16
   \<and> set (take 16 (hexdigest (sha256 env url))) \<subseteq> set ''0123456789abcdef''
   \<and> drop 16 (get_cache_filename env url) =
       (if endswith (path (urlparse env url)) ''.pdf''
        then ''_'' @ filter (\<lambda>c. isalnum c \<or> c \<in> set ''._-'') (basename (path (urlparse env url)))
        else ''.pdf'')
   \<and> (\<forall>c \<in> set (drop 17 (get_cache_filename env url)). isalnum c \<or> c \<in> set ''._-'')
   \<and> (take 16 (hexdigest (sha256 env url)) \<noteq> take 16 (hexdigest (sha256 env url'))
      \<longrightarrow> get_cache_filename env url \<noteq> get_cache_filename env url')"
proof -
  let ?h = "\<lambda>u. take 16 (hexdigest (sha256 env u))"
  let ?suffix = "\<lambda>u. if endswith (path (urlparse env u)) ''.pdf''
        then ''_'' @ filter (\<lambda>c. isalnum c \<or> c \<in> set ''._-'') (basename (path (urlparse env u)))
        else ''.pdf''"
  have len: "length (?h u) = 16" for u
    by (simp add: length_hexdigest)
  have shape: "get_cache_filename env u = ?h u @ ?suffix u" for u
    by (simp add: get_cache_filename_def Let_def)
  have pure: "urlparse env' = urlparse env \<and> sha256 env' = sha256 env
      \<longrightarrow> get_cache_filename env' url = get_cache_filename env url"
    by (simp add: get_cache_filename_def)
  have "take 16 (get_cache_filename env u) = ?h u" for u
    using len [of u] by (simp add: shape del: length_take)
  moreover have d: "drop 16 (get_cache_filename env url) = ?suffix url"
    using len [of url] by (simp add: shape del: length_take)
  moreover have "\<forall>c \<in> set (drop 17 (get_cache_filename env url)). isalnum c \<or> c \<in> set ''._-''"
  proof -
    have "drop 17 (get_cache_filename env url) = drop 1 (drop 16 (get_cache_filename env url))"
      by simp
    also have "\<dots> = drop 1 (?suffix url)" by (simp only: d)
    finally show ?thesis by (auto simp: isalnum_pdf)
  qed
  moreover have "?h url \<noteq> ?h url' \<longrightarrow> get_cache_filename env url \<noteq> get_cache_filename env url'"
    using len [of url] len [of url'] by (auto simp add: shape simp del: length_take)
  ultimately show ?thesis using pure len set_url_hash by blast
qed

theorem get_cache_filename_pure_witness:
  "get_cache_filename world ''https://example.com/path/my%20doc(1).pdf'' = ''7bcb44a9a933b346_my20doc1.pdf''
   \<and> get_cache_filename (world\<lparr>getaddrinfo := \<lambda>tr h. None\<rparr>) ''https://example.com/path/my%20doc(1).pdf''
       = ''7bcb44a9a933b346_my20doc1.pdf''
   \<and> get_cache_filename world ''https://example.com/api/download?id=123'' = ''27282d117d4a84c0.pdf''
   \<and> get_cache_filename world ''https://example.com/path/my%20doc(1).pdf''
       \<noteq> get_cache_filename world ''https://example.com/api/download?id=123''"
proof -
  let ?u = "''https://example.com/path/my%20doc(1).pdf''"
  let ?v = "''https://example.com/api/download?id=123''"
  let ?w = "world\<lparr>getaddrinfo := \<lambda>tr h. None\<rparr>"
  have same: "urlparse ?w = urlparse world \<and> sha256 ?w = sha256 world" by simp
  have u: "get_cache_filename world ?u = ''7bcb44a9a933b346_my20doc1.pdf''" by code_simp
  have v: "get_cache_filename world ?v = ''27282d117d4a84c0.pdf''" by code_simp
  have diff: "take 16 (hexdigest (sha256 world ?u)) \<noteq> take 16 (hexdigest (sha256 world ?v))"
    by code_simp
  from get_cache_filename_pure [of ?w world ?u ?v] same diff u v show ?thesis by simp
qed

text \<open>
  Claim C10. Every cache file name ends in \<^verbatim>\<open>.pdf\<close> and contains no \<^verbatim>\<open>/\<close>, so that it
  names an entry of the cache directory itself, and every file that a call of
  \<^verbatim>\<open>fetch\<close> adds to the file system is listed by the \<^verbatim>\<open>*.pdf\<close> glob over the cache
  directory, which is the listing \<^verbatim>\<open>clear_cache\<close> and \<^verbatim>\<open>get_cache_stats\<close> work on.
\<close>

theorem cache_filename_globbed:
  "endswith (get_cache_filename env url) ''.pdf''
   \<and> CHR ''/'' \<notin> set (get_cache_filename env url)
   \<and> (fetch env s url force = (r, s') \<and> p \<in> fst ` set (files s') \<and> p \<notin> fst ` set (files s)
       \<longrightarrow> p \<in> set (glob_pdf (cache_dir s') (files s')))"
proof (intro conjI impI)
  show "endswith (get_cache_filename env url) ''.pdf''" by (rule get_cache_filename_pdf)
next
  show "CHR ''/'' \<notin> set (get_cache_filename env url)" by (rule get_cache_filename_no_slash)
next
  assume a: "fetch env s url force = (r, s') \<and> p \<in> fst ` set (files s') \<and> p \<notin> fst ` set (files s)"
  then have f: "fetch env s url force = (r, s')" and in': "p \<in> fst ` set (files s')"
    and out: "p \<notin> fst ` set (files s)" by simp_all
  from fetch_files [OF f] in' out obtain c where
    w: "files s' = fs_write (cache_dir s @ [get_cache_filename env url]) c (files s)"
    and d: "cache_dir s' = cache_dir s" by auto
  from w in' out have "p = cache_dir s @ [get_cache_filename env url]"
    by (auto simp: fs_write_def)
  with d in' show "p \<in> set (glob_pdf (cache_dir s') (files s'))"
    by (simp add: set_glob_pdf get_cache_filename_pdf)
qed

theorem cache_filename_globbed_witness:
  "files (snd (fetch world s0 ''https://example.com/old.pdf'' False))
     = [([''tmp'', ''pdf-mcp'', ''downloads'', ''73f6027ddc92e918_old.pdf''], ''%PDF-1.4'')]
   \<and> endswith (get_cache_filename world ''https://example.com/old.pdf'') ''.pdf''
   \<and> [''tmp'', ''pdf-mcp'', ''downloads'', ''73f6027ddc92e918_old.pdf'']
       \<in> set (glob_pdf (cache_dir (snd (fetch world s0 ''https://example.com/old.pdf'' False)))
                (files (snd (fetch world s0 ''https://example.com/old.pdf'' False))))"
proof -
  let ?u = "''https://example.com/old.pdf''"
  let ?p = "[''tmp'', ''pdf-mcp'', ''downloads'', ''73f6027ddc92e918_old.pdf'']"
  let ?r = "fetch world s0 ?u False"
  have f: "files (snd ?r) = [(?p, ''%PDF-1.4'')]" by code_simp
  have new: "?p \<notin> fst ` set (files s0)" by (simp add: s0_def)
  have "?r = (fst ?r, snd ?r) \<and> ?p \<in> fst ` set (files (snd ?r)) \<and> ?p \<notin> fst ` set (files s0)"
    using f new by simp
  with cache_filename_globbed [of world ?u s0 False "fst ?r" "snd ?r" ?p] f
  show ?thesis by simp
qed

section \<open>Clearing the cache\<close>

text \<open>
  Claim C9. \<^verbatim>\<open>clear_cache\<close> has no failing outcome: it tries to unlink every path of the
  \<^verbatim>\<open>*.pdf\<close> glob, passes over each path whose unlink raises, empties the whole URL index
  whatever happened, and returns exactly the number of paths it did unlink, which is at most
  the number of paths listed. The files left are those it could not delete and those the
  glob does not list. With three deletable files and one that cannot be deleted the result
  is 3.
\<close>

theorem clear_cache_best_effort:
  assumes "clear_cache env s = (n, s')"
  shows "n = length (filter (\<lambda>p. \<not> unlink_fails env p) (glob_pdf (cache_dir s) (files s)))
    \<and> n \<le> length (glob_pdf (cache_dir s) (files s))
    \<and> url_to_path s' = Map.empty
    \<and> files s' =
        filter (\<lambda>e. \<not> (fst e \<in> set (glob_pdf (cache_dir s) (files s)) \<and> \<not> unlink_fails env (fst e)))
          (files s)
    \<and> cache_dir s' = cache_dir s \<and> trace s' = trace s"
  using assms by (auto simp: clear_cache_def unlink_loop_eq)

theorem clear_cache_best_effort_witness:
  "fst (clear_cache world s_full) = 3
   \<and> url_to_path (snd (clear_cache world s_full)) = Map.empty
   \<and> files (snd (clear_cache world s_full))
       = [([''tmp'', ''pdf-mcp'', ''downloads'', ''locked.pdf''], ''%PDF-1.4''),
          ([''tmp'', ''pdf-mcp'', ''downloads'', ''notes.txt''], ''hello'')]"
proof -
  let ?r = "clear_cache world s_full"
  let ?g = "glob_pdf (cache_dir s_full) (files s_full)"
  have e: "?r = (fst ?r, snd ?r)" by simp
  have n: "length (filter (\<lambda>p. \<not> unlink_fails world p) ?g) = 3" by code_simp
  have f: "filter (\<lambda>e. \<not> (fst e \<in> set ?g \<and> \<not> unlink_fails world (fst e))) (files s_full)
      = [([''tmp'', ''pdf-mcp'', ''downloads'', ''locked.pdf''], ''%PDF-1.4''),
         ([''tmp'', ''pdf-mcp'', ''downloads'', ''notes.txt''], ''hello'')]"
    by code_simp
  from clear_cache_best_effort [OF e] n f show ?thesis by simp
qed

section \<open>The SSRF guard\<close>

text \<open>
  Claim C2. The guard applies its rules in this order and fails closed. A scheme other than
  \<^verbatim>\<open>http\<close> and \<^verbatim>\<open>https\<close> is blocked; then a missing or empty host name; then the four
  literal names for the local host, by comparison of strings, with no lookup (the trace is
  unchanged). Otherwise the name is resolved, once: a failed lookup is blocked, a lookup
  with a dangerous address among its answers is blocked, and a lookup with none is accepted.
  An address is dangerous when it does not parse or is private, loopback, link-local,
  reserved or multicast. The code raises one and the same \<^verbatim>\<open>ValueError\<close> for a failed lookup
  and for a dangerous address, here \<open>BlockedURL PrivateAddress\<close>.
\<close>

theorem validate_url_fails_closed:
  "(scheme (urlparse env url) \<notin> {''http'', ''https''}
      \<longrightarrow> validate_url env tr url = (Inl (BlockedURL Scheme), tr))
   \<and> (scheme (urlparse env url) \<in> {''http'', ''https''}
       \<and> hostname (urlparse env url) \<in> {None, Some []}
      \<longrightarrow> validate_url env tr url = (Inl (BlockedURL NoHost), tr))
   \<and> (scheme (urlparse env url) \<in> {''http'', ''https''}
       \<and> hostname (urlparse env url) = Some h
       \<and> h \<in> {''localhost'', ''127.0.0.1'', ''::1'', ''0.0.0.0''}
      \<longrightarrow> validate_url env tr url = (Inl (BlockedURL Localhost), tr))
   \<and> (scheme (urlparse env url) \<in> {''http'', ''https''}
       \<and> hostname (urlparse env url) = Some h \<and> h \<noteq> []
       \<and> h \<notin> {''localhost'', ''127.0.0.1'', ''::1'', ''0.0.0.0''}
      \<longrightarrow> (getaddrinfo env tr h = None
            \<longrightarrow> validate_url env tr url = (Inl (BlockedURL PrivateAddress), tr @ [Resolve h]))
        \<and> (getaddrinfo env tr h = Some addrs \<and> (\<exists>a \<in> set addrs. dangerous env a)
            \<longrightarrow> validate_url env tr url = (Inl (BlockedURL PrivateAddress), tr @ [Resolve h]))
        \<and> (getaddrinfo env tr h = Some addrs \<and> (\<forall>a \<in> set addrs. \<not> dangerous env a)
            \<longrightarrow> validate_url env tr url = (Inr (), tr @ [Resolve h])))
   \<and> (dangerous env a \<longleftrightarrow>
        (\<forall>ip. ip_address env a = Some ip
           \<longrightarrow> is_private ip \<or> is_loopback ip \<or> is_link_local ip \<or> is_reserved ip
               \<or> is_multicast ip))"
proof -
  have static: "validate_url env tr url =
      (if scheme (urlparse env url) \<notin> {''http'', ''https''} then (Inl (BlockedURL Scheme), tr)
       else case hostname (urlparse env url) of
              None \<Rightarrow> (Inl (BlockedURL NoHost), tr)
            | Some host \<Rightarrow>
                if host = [] then (Inl (BlockedURL NoHost), tr)
                else if host \<in> {''localhost'', ''127.0.0.1'', ''::1'', ''0.0.0.0''}
                then (Inl (BlockedURL Localhost), tr)
                else if fst (is_private_ip env tr host)
                then (Inl (BlockedURL PrivateAddress), tr @ [Resolve host])
                else (Inr (), tr @ [Resolve host]))"
    by (simp add: validate_url_def is_private_ip_def split: option.splits)
  have dns: "fst (is_private_ip env tr h) \<longleftrightarrow>
      (case getaddrinfo env tr h of None \<Rightarrow> True | Some as \<Rightarrow> \<exists>a \<in> set as. dangerous env a)"
    by (simp add: is_private_ip_def addr_loop_iff split: option.splits)
  have 1: "scheme (urlparse env url) \<notin> {''http'', ''https''}
      \<longrightarrow> validate_url env tr url = (Inl (BlockedURL Scheme), tr)"
    by (simp add: static)
  have 2: "scheme (urlparse env url) \<in> {''http'', ''https''}
       \<and> hostname (urlparse env url) \<in> {None, Some []}
      \<longrightarrow> validate_url env tr url = (Inl (BlockedURL NoHost), tr)"
    by (auto simp: static)
  have 3: "scheme (urlparse env url) \<in> {''http'', ''https''}
       \<and> hostname (urlparse env url) = Some h
       \<and> h \<in> {''localhost'', ''127.0.0.1'', ''::1'', ''0.0.0.0''}
      \<longrightarrow> validate_url env tr url = (Inl (BlockedURL Localhost), tr)"
    by (auto simp: static)
  have 4: "scheme (urlparse env url) \<in> {''http'', ''https''}
       \<and> hostname (urlparse env url) = Some h \<and> h \<noteq> []
       \<and> h \<notin> {''localhost'', ''127.0.0.1'', ''::1'', ''0.0.0.0''}
      \<longrightarrow> (getaddrinfo env tr h = None
            \<longrightarrow> validate_url env tr url = (Inl (BlockedURL PrivateAddress), tr @ [Resolve h]))
        \<and> (getaddrinfo env tr h = Some addrs \<and> (\<exists>a \<in> set addrs. dangerous env a)
            \<longrightarrow> validate_url env tr url = (Inl (BlockedURL PrivateAddress), tr @ [Resolve h]))
        \<and> (getaddrinfo env tr h = Some addrs \<and> (\<forall>a \<in> set addrs. \<not> dangerous env a)
            \<longrightarrow> validate_url env tr url = (Inr (), tr @ [Resolve h]))"
    by (auto simp: static dns)
  have 5: "dangerous env a \<longleftrightarrow>
        (\<forall>ip. ip_address env a = Some ip
           \<longrightarrow> is_private ip \<or> is_loopback ip \<or> is_link_local ip \<or> is_reserved ip
               \<or> is_multicast ip)"
    by (simp add: dangerous_def split: option.splits)
  from 1 2 3 4 5 show ?thesis by (intro conjI)
qed

theorem validate_url_fails_closed_witness:
  "validate_url world [] ''ftp://example.com/test.pdf'' = (Inl (BlockedURL Scheme), [])
   \<and> validate_url world [] ''https:///secret.pdf'' = (Inl (BlockedURL NoHost), [])
   \<and> validate_url world [] ''https://localhost/secret.pdf'' = (Inl (BlockedURL Localhost), [])
   \<and> validate_url world [] ''https://unknown-host/x.pdf''
       = (Inl (BlockedURL PrivateAddress), [Resolve ''unknown-host''])
   \<and> validate_url world [] ''https://internal-server.corp/secret.pdf''
       = (Inl (BlockedURL PrivateAddress), [Resolve ''internal-server.corp''])
   \<and> validate_url world [] ''https://example.com/old.pdf'' = (Inr (), [Resolve ''example.com''])"
proof -
  let ?lit = "{''localhost'', ''127.0.0.1'', ''::1'', ''0.0.0.0''}"
  have a: "scheme (urlparse world ''ftp://example.com/test.pdf'') \<notin> {''http'', ''https''}"
    by code_simp
  have b: "scheme (urlparse world ''https:///secret.pdf'') \<in> {''http'', ''https''}
      \<and> hostname (urlparse world ''https:///secret.pdf'') \<in> {None, Some []}"
    by code_simp
  have c: "scheme (urlparse world ''https://localhost/secret.pdf'') \<in> {''http'', ''https''}
      \<and> hostname (urlparse world ''https://localhost/secret.pdf'') = Some ''localhost''
      \<and> ''localhost'' \<in> ?lit"
    by code_simp
  have d: "scheme (urlparse world ''https://unknown-host/x.pdf'') \<in> {''http'', ''https''}
      \<and> hostname (urlparse world ''https://unknown-host/x.pdf'') = Some ''unknown-host''
      \<and> ''unknown-host'' \<noteq> [] \<and> ''unknown-host'' \<notin> ?lit"
    "getaddrinfo world [] ''unknown-host'' = None"
    by code_simp+
  have e: "scheme (urlparse world ''https://internal-server.corp/secret.pdf'') \<in> {''http'', ''https''}
      \<and> hostname (urlparse world ''https://internal-server.corp/secret.pdf'')
          = Some ''internal-server.corp''
      \<and> ''internal-server.corp'' \<noteq> [] \<and> ''internal-server.corp'' \<notin> ?lit"
    "getaddrinfo world [] ''internal-server.corp'' = Some [''10.0.0.1'']
      \<and> (\<exists>a \<in> set [''10.0.0.1'']. dangerous world a)"
    by code_simp+
  have f: "scheme (urlparse world ''https://example.com/old.pdf'') \<in> {''http'', ''https''}
      \<and> hostname (urlparse world ''https://example.com/old.pdf'') = Some ''example.com''
      \<and> ''example.com'' \<noteq> [] \<and> ''example.com'' \<notin> ?lit"
    "getaddrinfo world [] ''example.com'' = Some [''93.184.216.34'']
      \<and> (\<forall>a \<in> set [''93.184.216.34'']. \<not> dangerous world a)"
    by code_simp+
  note r = validate_url_fails_closed [where env = world and tr = "[]"]
  have "validate_url world [] ''ftp://example.com/test.pdf'' = (Inl (BlockedURL Scheme), [])"
    using r [of "''ftp://example.com/test.pdf''"] a by blast
  moreover have "validate_url world [] ''https:///secret.pdf'' = (Inl (BlockedURL NoHost), [])"
    using r [of "''https:///secret.pdf''"] b by blast
  moreover have "validate_url world [] ''https://localhost/secret.pdf''
      = (Inl (BlockedURL Localhost), [])"
    using r [of "''https://localhost/secret.pdf''" "''localhost''"] c by blast
  moreover have "validate_url world [] ''https://unknown-host/x.pdf''
      = (Inl (BlockedURL PrivateAddress), [Resolve ''unknown-host''])"
    using r [of "''https://unknown-host/x.pdf''" "''unknown-host''"] d by auto
  moreover have "validate_url world [] ''https://internal-server.corp/secret.pdf''
      = (Inl (BlockedURL PrivateAddress), [Resolve ''internal-server.corp''])"
    using r [of "''https://internal-server.corp/secret.pdf''" "''internal-server.corp''"
        "[''10.0.0.1'']"] e by auto
  moreover have "validate_url world [] ''https://example.com/old.pdf''
      = (Inr (), [Resolve ''example.com''])"
    using r [of "''https://example.com/old.pdf''" "''example.com''" "[''93.184.216.34'']"] f
    by auto
  ultimately show ?thesis by (intro conjI)
qed

section \<open>Lemmas on the guard, the download and the fetch\<close>

lemma validate_url_trace:
  "validate_url env tr url = (r, tr') \<Longrightarrow> tr' = tr \<or> (\<exists>h. tr' = tr @ [Resolve h])"
  by (auto simp: validate_url_def is_private_ip_def Let_def
      split: if_splits option.splits bool.splits)

lemma validate_url_pass:
  "validate_url env tr url = (Inr u, tr') \<Longrightarrow> \<exists>h. tr' = tr @ [Resolve h]"
  by (auto simp: validate_url_def is_private_ip_def Let_def
      split: if_splits option.splits bool.splits)

lemma validate_url_error:
  "validate_url env tr url = (Inl e, tr') \<Longrightarrow> \<exists>b. e = BlockedURL b"
  by (auto simp: validate_url_def is_private_ip_def Let_def
      split: if_splits option.splits bool.splits)

lemma get_local_path_trace:
  "get_local_path env (s\<lparr>trace := t\<rparr>) url =
     (fst (get_local_path env s url), (snd (get_local_path env s url))\<lparr>trace := t\<rparr>)"
  by (simp add: get_local_path_def Let_def split: option.splits)

lemma get_local_path_hit:
  "get_local_path env s url = (Some p, s') \<Longrightarrow>
     fs_exists (files s) p \<and> files s' = files s \<and> cache_dir s' = cache_dir s \<and> trace s' = trace s
     \<and> url_to_path s' url = Some p"
  by (auto simp: get_local_path_def Let_def split: option.splits if_splits)

lemma get_local_path_miss:
  "get_local_path env s url = (None, s') \<Longrightarrow> s' = s"
  by (auto simp: get_local_path_def Let_def split: option.splits if_splits)

lemma get_local_path_index:
  "url_to_path s url = Some p \<Longrightarrow> fs_exists (files s) p \<Longrightarrow> get_local_path env s url = (Some p, s)"
  by (simp add: get_local_path_def)

lemma fetch_blocked:
  "validate_url env (trace s) url = (Inl e, tr1) \<Longrightarrow> fetch env s url force = (Inl e, s\<lparr>trace := tr1\<rparr>)"
  by (simp add: fetch_def)

lemma fetch_cached:
  assumes "validate_url env (trace s) url = (Inr u, tr1)"
    and "get_local_path env s url = (Some p, s2)"
  shows "fetch env s url False = (Inr p, s2\<lparr>trace := tr1\<rparr>)"
  using assms by (simp add: fetch_def get_local_path_trace)

lemma fetch_download:
  assumes "validate_url env (trace s) url = (Inr u, tr1)"
    and "force \<or> fst (get_local_path env s url) = None"
  shows "fetch env s url force =
     (case redirect_loop env MAX_REDIRECTS url tr1 of
        (Inl e, tr3) \<Rightarrow> (Inl e, s\<lparr>trace := tr3\<rparr>)
      | (Inr content, tr3) \<Rightarrow>
          (case os_write_file env (cache_dir s @ [get_cache_filename env url]) content (files s) of
             (False, fs') \<Rightarrow> (Inl OSError, s\<lparr>trace := tr3, files := fs'\<rparr>)
           | (True, fs') \<Rightarrow>
               (Inr (cache_dir s @ [get_cache_filename env url]),
                s\<lparr>trace := tr3, files := fs',
                  url_to_path := (url_to_path s)(url \<mapsto> cache_dir s @ [get_cache_filename env url])\<rparr>)))"
proof (cases force)
  case True
  with assms(1) show ?thesis
    by (simp add: fetch_def Let_def split: prod.splits sum.splits bool.splits)
next
  case False
  with assms(2) have "fst (get_local_path env s url) = None" by simp
  then have "get_local_path env s url = (None, s)"
    using get_local_path_miss [of env s url "snd (get_local_path env s url)"]
    by (metis prod.collapse)
  with assms(1) False show ?thesis
    by (simp add: fetch_def Let_def get_local_path_trace split: prod.splits sum.splits bool.splits)
qed

lemma os_write_file_ok:
  "os_write_file env p c fs = (True, fs') \<Longrightarrow> fs' = fs_write p c fs"
  by (auto simp: os_write_file_def split: disk_fault.splits)

lemma fs_exists_write: "fs_exists (fs_write p c fs) p"
  by (simp add: fs_exists_def fs_write_def)

lemma map_of_write: "map_of (fs_write p c fs) p = Some c"
  by (simp add: fs_write_def)

lemma fetch_cases:
  assumes "fetch env s url force = (r, s')"
  obtains
    (blocked) e tr1 where "validate_url env (trace s) url = (Inl e, tr1)"
      "r = Inl e" "s' = s\<lparr>trace := tr1\<rparr>"
  | (cached) tr1 p s2 where "validate_url env (trace s) url = (Inr (), tr1)" "\<not> force"
      "get_local_path env s url = (Some p, s2)" "r = Inr p" "s' = s2\<lparr>trace := tr1\<rparr>"
  | (download) tr1 where "validate_url env (trace s) url = (Inr (), tr1)"
      "force \<or> fst (get_local_path env s url) = None"
proof (cases "validate_url env (trace s) url")
  case (Pair v tr1)
  show ?thesis
  proof (cases v)
    case (Inl e)
    with Pair assms show ?thesis using blocked [of e tr1] by (simp add: fetch_blocked)
  next
    case (Inr u)
    with Pair have v: "validate_url env (trace s) url = (Inr (), tr1)" by simp
    show ?thesis
    proof (cases "force \<or> fst (get_local_path env s url) = None")
      case True
      with v show ?thesis by (rule download)
    next
      case False
      then obtain p where "fst (get_local_path env s url) = Some p" and nf: "\<not> force" by auto
      then have g: "get_local_path env s url = (Some p, snd (get_local_path env s url))"
        by (metis prod.collapse)
      from fetch_cached [OF v g] assms nf show ?thesis
        using cached [OF v nf g] by simp
    qed
  qed
qed

lemma read_body_trace:
  "read_body cs tot acc tr = (r, tr') \<Longrightarrow> \<exists>ks. tr' = tr @ map ReadChunk ks"
proof (induction cs tot acc tr rule: read_body.induct)
  case (1 total_size chunks tr)
  then show ?case by simp
next
  case (2 rest total_size chunks tr)
  then show ?case by simp
next
  case (3 c rest total_size chunks tr)
  show ?case
  proof (cases "total_size + int (length c) > MAX_DOWNLOAD_SIZE")
    case True
    with 3(2) have "tr' = tr @ map ReadChunk [length c]" by (simp add: Let_def)
    then show ?thesis by blast
  next
    case False
    with 3(2) have "read_body rest (total_size + int (length c)) (chunks @ [c])
        (tr @ [ReadChunk (length c)]) = (r, tr')"
      by (simp add: Let_def)
    from 3(1) [OF refl refl False this] obtain ks where
      "tr' = (tr @ [ReadChunk (length c)]) @ map ReadChunk ks" by blast
    then have "tr' = tr @ map ReadChunk (length c # ks)" by simp
    then show ?thesis by blast
  qed
qed

lemma receive_trace:
  assumes "receive env resp tr = (r, tr')"
  shows "\<exists>ks. tr' = tr @ map ReadChunk ks"
proof (cases "read_body (iter_bytes resp) 0 [] tr")
  case (Pair b tb)
  from read_body_trace [OF Pair] obtain ks where ks: "tb = tr @ map ReadChunk ks" by blast
  have "tr' = tr \<or> tr' = tb"
    using assms Pair
    by (auto simp: receive_def Let_def split: if_splits option.splits sum.splits)
  then show ?thesis
  proof
    assume "tr' = tr"
    then have "tr' = tr @ map ReadChunk []" by simp
    then show ?thesis by blast
  next
    assume "tr' = tb"
    with ks show ?thesis by blast
  qed
qed

lemma redirect_loop_prefix:
  "redirect_loop env n u tr = (r, tr') \<Longrightarrow> \<exists>new. tr' = tr @ new"
proof (induction n arbitrary: u tr)
  case 0
  then show ?case by simp
next
  case (Suc n)
  show ?case
  proof (cases "client_stream env tr u")
    case ConnectError
    with Suc.prems show ?thesis by auto
  next
    case (Response resp)
    show ?thesis
    proof (cases "is_redirect resp")
      case False
      with Response Suc.prems have "receive env resp (tr @ [Connect u]) = (r, tr')" by simp
      from receive_trace [OF this] show ?thesis by auto
    next
      case True
      show ?thesis
      proof (cases "next_request resp")
        case None
        with True Response Suc.prems show ?thesis by auto
      next
        case (Some t)
        obtain v tv where v: "validate_url env (tr @ [Connect u]) t = (v, tv)"
          by (cases "validate_url env (tr @ [Connect u]) t")
        from validate_url_trace [OF v] obtain g where g: "tv = tr @ Connect u # g" by auto
        show ?thesis
        proof (cases v)
          case (Inl e)
          with v Some True Response Suc.prems g show ?thesis by auto
        next
          case (Inr x)
          with v Some True Response Suc.prems have "redirect_loop env n t tv = (r, tr')" by simp
          from Suc.IH [OF this] g show ?thesis by auto
        qed
      qed
    qed
  qed
qed

lemma redirect_loop_connects:
  assumes "redirect_loop env (Suc n) u tr = (r, tr')"
  shows "\<exists>rest. tr' = tr @ Connect u # rest"
proof (cases "client_stream env tr u")
  case ConnectError
  with assms show ?thesis by auto
next
  case (Response resp)
  show ?thesis
  proof (cases "is_redirect resp")
    case False
    with Response assms have "receive env resp (tr @ [Connect u]) = (r, tr')" by simp
    from receive_trace [OF this] show ?thesis by auto
  next
    case True
    show ?thesis
    proof (cases "next_request resp")
      case None
      with True Response assms show ?thesis by auto
    next
      case (Some t)
      obtain v tv where v: "validate_url env (tr @ [Connect u]) t = (v, tv)"
        by (cases "validate_url env (tr @ [Connect u]) t")
      from validate_url_trace [OF v] obtain g where g: "tv = tr @ Connect u # g" by auto
      show ?thesis
      proof (cases v)
        case (Inl e)
        with v Some True Response assms g show ?thesis by auto
      next
        case (Inr x)
        with v Some True Response assms have "redirect_loop env n t tv = (r, tr')" by simp
        from redirect_loop_prefix [OF this] g show ?thesis by auto
      qed
    qed
  qed
qed

lemma validate_url_unfold:
  "validate_url env tr url =
      (if scheme (urlparse env url) \<notin> {''http'', ''https''} then (Inl (BlockedURL Scheme), tr)
       else case hostname (urlparse env url) of
              None \<Rightarrow> (Inl (BlockedURL NoHost), tr)
            | Some host \<Rightarrow>
                if host = [] then (Inl (BlockedURL NoHost), tr)
                else if host \<in> {''localhost'', ''127.0.0.1'', ''::1'', ''0.0.0.0''}
                then (Inl (BlockedURL Localhost), tr)
                else if fst (is_private_ip env tr host)
                then (Inl (BlockedURL PrivateAddress), tr @ [Resolve host])
                else (Inr (), tr @ [Resolve host]))"
  by (simp add: validate_url_def is_private_ip_def split: option.splits)

lemma validate_url_static:
  assumes "\<forall>h. getaddrinfo env tr' h = getaddrinfo env tr h"
  shows "fst (validate_url env tr' url) = fst (validate_url env tr url)"
proof -
  from assms have "fst (is_private_ip env tr' h) = fst (is_private_ip env tr h)" for h
    by (simp add: is_private_ip_def split: option.splits)
  then show ?thesis
    by (simp add: validate_url_unfold split: option.splits)
qed

lemma fetch_registered:
  assumes "fetch env s url force = (Inr p, s1)"
  shows "url_to_path s1 url = Some p \<and> fs_exists (files s1) p"
  using assms
proof (cases rule: fetch_cases)
  case (cached tr1 q s2)
  with get_local_path_hit [OF cached(3)] show ?thesis by simp
next
  case (download tr1)
  from assms show ?thesis unfolding fetch_download [OF download]
    by (auto split: prod.splits sum.splits bool.splits dest!: os_write_file_ok
        simp: fs_exists_write)
qed simp_all

lemma read_body_chunks:
  "tot + int (length (concat bs)) \<le> MAX_DOWNLOAD_SIZE \<Longrightarrow>
   read_body (map Chunk bs @ later) tot acc tr =
     read_body later (tot + int (length (concat bs))) (acc @ bs)
       (tr @ map (\<lambda>b. ReadChunk (length b)) bs)"
proof (induction bs arbitrary: tot acc tr)
  case Nil
  then show ?case by simp
next
  case (Cons b bs)
  then have "\<not> tot + int (length b) > MAX_DOWNLOAD_SIZE"
    and "(tot + int (length b)) + int (length (concat bs)) \<le> MAX_DOWNLOAD_SIZE"
    by simp_all
  with Cons.IH [of "tot + int (length b)" "acc @ [b]" "tr @ [ReadChunk (length b)]"]
  show ?case by (simp add: Let_def add.assoc)
qed

lemma read_body_crossing:
  assumes "tot + int (length (concat pre)) \<le> MAX_DOWNLOAD_SIZE"
    and "MAX_DOWNLOAD_SIZE < tot + int (length (concat pre)) + int (length c)"
  shows "read_body (map Chunk pre @ Chunk c # rest) tot acc tr =
     (Inl (TooLarge Streamed), tr @ map (\<lambda>b. ReadChunk (length b)) (pre @ [c]))"
  using assms(2) by (simp add: read_body_chunks [OF assms(1)] Let_def)

lemma crossing_exists:
  "MAX_DOWNLOAD_SIZE < tot + int (length (concat (bs::string list))) \<Longrightarrow> tot \<le> MAX_DOWNLOAD_SIZE \<Longrightarrow>
   \<exists>pre c rest. bs = pre @ c # rest
     \<and> tot + int (length (concat pre)) \<le> MAX_DOWNLOAD_SIZE
     \<and> MAX_DOWNLOAD_SIZE < tot + int (length (concat pre)) + int (length c)"
proof (induction bs arbitrary: tot)
  case Nil
  then show ?case by simp
next
  case (Cons b bs)
  show ?case
  proof (cases "MAX_DOWNLOAD_SIZE < tot + int (length b)")
    case True
    with Cons.prems have "b # bs = [] @ b # bs
        \<and> tot + int (length (concat ([]::string list))) \<le> MAX_DOWNLOAD_SIZE
        \<and> MAX_DOWNLOAD_SIZE < tot + int (length (concat ([]::string list))) + int (length b)"
      by simp
    then show ?thesis
      by - (rule exI [of _ "[]::string list"], rule exI [of _ b], rule exI [of _ bs], assumption)
  next
    case False
    then have le: "tot + int (length b) \<le> MAX_DOWNLOAD_SIZE" by simp
    from Cons.prems(1) have gt: "MAX_DOWNLOAD_SIZE < (tot + int (length b)) + int (length (concat bs))"
      by simp
    from Cons.IH [OF gt le] show ?thesis
    proof (elim exE conjE)
      fix pre c rest
      assume a: "bs = pre @ c # rest"
        and b: "tot + int (length b) + int (length (concat pre)) \<le> MAX_DOWNLOAD_SIZE"
        and c: "MAX_DOWNLOAD_SIZE < tot + int (length b) + int (length (concat pre)) + int (length c)"
      from a have "b # bs = (b # pre) @ c # rest" by simp
      moreover from b have "tot + int (length (concat (b # pre))) \<le> MAX_DOWNLOAD_SIZE" by simp
      moreover from c have "MAX_DOWNLOAD_SIZE < tot + int (length (concat (b # pre))) + int (length c)"
        by simp
      ultimately have "b # bs = (b # pre) @ c # rest
        \<and> tot + int (length (concat (b # pre))) \<le> MAX_DOWNLOAD_SIZE
        \<and> MAX_DOWNLOAD_SIZE < tot + int (length (concat (b # pre))) + int (length c)"
        by (intro conjI)
      then show ?thesis
        by - (rule exI [of _ "b # pre"], rule exI [of _ c], rule exI [of _ rest],
            assumption)
    qed
  qed
qed

lemma receive_body:
  assumes "\<not> raises_for_status resp"
    and "content_length resp = None \<or> content_length resp = Some []
         \<or> (\<exists>cl m. content_length resp = Some cl \<and> int_of_str env cl = Some m
               \<and> m \<le> MAX_DOWNLOAD_SIZE)"
  shows "receive env resp tr =
     (case read_body (iter_bytes resp) 0 [] tr of
        (Inl e, tr') \<Rightarrow> (Inl e, tr')
      | (Inr chunks, tr') \<Rightarrow>
          if str_in ''pdf'' (lower (case content_type resp of None \<Rightarrow> [] | Some v \<Rightarrow> v))
             \<or> startswith (concat chunks) ''%PDF''
          then (Inr (concat chunks), tr')
          else (Inl NotAPDF, tr'))"
proof -
  obtain b tb where rb: "read_body (iter_bytes resp) 0 [] tr = (b, tb)"
    by (cases "read_body (iter_bytes resp) 0 [] tr")
  have hdr: "(case content_length resp of
                None \<Rightarrow> Inr ()
              | Some cl \<Rightarrow>
                  if cl = [] then Inr ()
                  else
                    case int_of_str env cl of
                      None \<Rightarrow> Inl BadContentLength
                    | Some n \<Rightarrow> if n > MAX_DOWNLOAD_SIZE then Inl (TooLarge Declared) else Inr ())
             = Inr ()"
    using assms(2) by auto
  show ?thesis
  proof (cases b)
    case (Inl e)
    with rb assms(1) show ?thesis by (simp add: receive_def hdr)
  next
    case (Inr chunks)
    with rb assms(1) show ?thesis by (simp add: receive_def hdr Let_def)
  qed
qed

lemma receive_declared:
  assumes "\<not> raises_for_status resp"
    and "content_length resp = Some cl" "cl \<noteq> []" "int_of_str env cl = Some n"
    and "n > MAX_DOWNLOAD_SIZE"
  shows "receive env resp tr = (Inl (TooLarge Declared), tr)"
  using assms by (simp add: receive_def)

lemma str_in_iff: "str_in sub t \<longleftrightarrow> (\<exists>p q. t = p @ sub @ q)"
proof (induction t)
  case Nil
  then show ?case by auto
next
  case (Cons c cs)
  have "startswith (c # cs) sub \<longleftrightarrow> (\<exists>q. c # cs = sub @ q)"
    unfolding startswith_def by (metis append_eq_conv_conj)
  moreover have "(\<exists>p q. c # cs = p @ sub @ q) \<longleftrightarrow>
      (\<exists>q. c # cs = sub @ q) \<or> (\<exists>p q. cs = p @ sub @ q)"
  proof
    assume "\<exists>p q. c # cs = p @ sub @ q"
    then obtain p q where pq: "c # cs = p @ sub @ q" by blast
    show "(\<exists>q. c # cs = sub @ q) \<or> (\<exists>p q. cs = p @ sub @ q)"
    proof (cases p)
      case Nil
      with pq show ?thesis by auto
    next
      case (Cons a p')
      with pq have "cs = p' @ sub @ q" by simp
      then show ?thesis by blast
    qed
  next
    assume "(\<exists>q. c # cs = sub @ q) \<or> (\<exists>p q. cs = p @ sub @ q)"
    then show "\<exists>p q. c # cs = p @ sub @ q"
    proof
      assume "\<exists>q. c # cs = sub @ q"
      then obtain q where "c # cs = [] @ sub @ q" by auto
      then show ?thesis by blast
    next
      assume "\<exists>p q. cs = p @ sub @ q"
      then obtain p q where "c # cs = (c # p) @ sub @ q" by auto
      then show ?thesis by blast
    qed
  qed
  ultimately show ?case using Cons.IH by simp
qed

lemma startswith_iff: "startswith t pre \<longleftrightarrow> (\<exists>q. t = pre @ q)"
  unfolding startswith_def by (metis append_eq_conv_conj)

lemma redirect_loop_receive:
  "client_stream env tr u = Response resp \<Longrightarrow> \<not> is_redirect resp \<Longrightarrow>
   redirect_loop env (Suc k) u tr = receive env resp (tr @ [Connect u])"
  by simp

lemma fetch_loop_error:
  assumes "validate_url env (trace s) url = (Inr (), tr1)"
    and "force \<or> fst (get_local_path env s url) = None"
    and "redirect_loop env MAX_REDIRECTS url tr1 = (Inl e, tr3)"
  shows "fetch env s url force = (Inl e, s\<lparr>trace := tr3\<rparr>)"
  by (simp add: fetch_download [OF assms(1,2)] assms(3))

lemma validate_url_cong:
  "urlparse env' = urlparse env \<Longrightarrow> getaddrinfo env' = getaddrinfo env \<Longrightarrow>
   ip_address env' = ip_address env \<Longrightarrow> validate_url env' tr u = validate_url env tr u"
proof -
  assume a: "urlparse env' = urlparse env" "getaddrinfo env' = getaddrinfo env"
    "ip_address env' = ip_address env"
  have "dangerous env' = dangerous env" by (rule ext) (simp add: dangerous_def a)
  then have "addr_loop env' xs = addr_loop env xs" for xs by (induction xs) simp_all
  then have "is_private_ip env' tr h = is_private_ip env tr h" for h
    by (simp add: is_private_ip_def a cong: option.case_cong)
  then show ?thesis by (simp add: validate_url_def a cong: option.case_cong if_cong)
qed

lemma get_local_path_cong:
  "urlparse env' = urlparse env \<Longrightarrow> sha256 env' = sha256 env \<Longrightarrow>
   get_local_path env' s u = get_local_path env s u"
proof -
  assume "urlparse env' = urlparse env" "sha256 env' = sha256 env"
  then have "get_cache_filename env' u = get_cache_filename env u"
    by (simp add: get_cache_filename_def)
  then show ?thesis by (simp add: get_local_path_def cong: option.case_cong)
qed

section \<open>Atomicity of the fetch\<close>

text \<open>
  Claim C8. A fetch that fails in the guard, in the transport, on a size limit, on the
  content check or on the redirect cap (any error but \<open>OSError\<close>, which is the disk failing
  while the file is saved) leaves the files and the URL index as they were; no failure at
  all adds an entry to the index. A fetch that succeeds has registered its path, and either
  it changed no file (the path was cached) or the file at that path holds exactly the body
  that the download loop returned, which is the body after all its checks.
\<close>

theorem fetch_atomic:
  "(fetch env s url force = (Inl e, s') \<longrightarrow>
      url_to_path s' = url_to_path s \<and> (e \<noteq> OSError \<longrightarrow> files s' = files s))
   \<and> (fetch env s url force = (Inr p, s') \<longrightarrow>
      url_to_path s' url = Some p
      \<and> (files s' = files s \<and> fs_exists (files s) p
         \<or> (\<exists>tr1 content tr3.
               validate_url env (trace s) url = (Inr (), tr1)
               \<and> redirect_loop env MAX_REDIRECTS url tr1 = (Inr content, tr3)
               \<and> files s' = fs_write p content (files s)
               \<and> map_of (files s') p = Some content)))"
proof (intro conjI impI)
  assume f: "fetch env s url force = (Inl e, s')"
  then show "url_to_path s' = url_to_path s"
  proof (cases rule: fetch_cases)
    case (download tr1)
    from f show ?thesis unfolding fetch_download [OF download]
      by (auto split: prod.splits sum.splits bool.splits)
  qed simp_all
  show "files s' = files s" if "e \<noteq> OSError"
    using f
  proof (cases rule: fetch_cases)
    case (download tr1)
    from f that show ?thesis unfolding fetch_download [OF download]
      by (auto split: prod.splits sum.splits bool.splits)
  qed simp_all
next
  assume f: "fetch env s url force = (Inr p, s')"
  then show "url_to_path s' url = Some p"
  proof (cases rule: fetch_cases)
    case (cached tr1 q s2)
    with get_local_path_hit [OF cached(3)] show ?thesis by simp
  next
    case (download tr1)
    from f show ?thesis unfolding fetch_download [OF download]
      by (auto split: prod.splits sum.splits bool.splits)
  qed simp_all
  from f show "files s' = files s \<and> fs_exists (files s) p
         \<or> (\<exists>tr1 content tr3.
               validate_url env (trace s) url = (Inr (), tr1)
               \<and> redirect_loop env MAX_REDIRECTS url tr1 = (Inr content, tr3)
               \<and> files s' = fs_write p content (files s)
               \<and> map_of (files s') p = Some content)"
  proof (cases rule: fetch_cases)
    case (cached tr1 q s2)
    with get_local_path_hit [OF cached(3)] show ?thesis by simp
  next
    case (download tr1)
    from f download(1) show ?thesis unfolding fetch_download [OF download]
      by (auto split: prod.splits sum.splits bool.splits dest!: os_write_file_ok
          simp: map_of_write)
  qed simp_all
qed

theorem fetch_atomic_witness:
  "fst (fetch world s0 ''https://example.com/notapdf.html'' False) = Inl NotAPDF
   \<and> files (snd (fetch world s0 ''https://example.com/notapdf.html'' False)) = files s0
   \<and> url_to_path (snd (fetch world s0 ''https://example.com/notapdf.html'' False)) = url_to_path s0
   \<and> fst (fetch world s0 ''https://example.com/old.pdf'' False)
       = Inr [''tmp'', ''pdf-mcp'', ''downloads'', ''73f6027ddc92e918_old.pdf'']
   \<and> url_to_path (snd (fetch world s0 ''https://example.com/old.pdf'' False))
        ''https://example.com/old.pdf''
       = Some [''tmp'', ''pdf-mcp'', ''downloads'', ''73f6027ddc92e918_old.pdf'']"
proof -
  let ?bad = "fetch world s0 ''https://example.com/notapdf.html'' False"
  let ?good = "fetch world s0 ''https://example.com/old.pdf'' False"
  let ?p = "[''tmp'', ''pdf-mcp'', ''downloads'', ''73f6027ddc92e918_old.pdf'']"
  have b: "fst ?bad = Inl NotAPDF" by code_simp
  then have b': "?bad = (Inl NotAPDF, snd ?bad)" by (metis prod.collapse)
  have g: "fst ?good = Inr ?p" by code_simp
  then have g': "?good = (Inr ?p, snd ?good)" by (metis prod.collapse)
  from fetch_atomic [of world s0 "''https://example.com/notapdf.html''" False NotAPDF "snd ?bad"] b'
  have "url_to_path (snd ?bad) = url_to_path s0 \<and> files (snd ?bad) = files s0" by simp
  moreover
  from fetch_atomic [of world s0 "''https://example.com/old.pdf''" False _ "snd ?good" ?p] g'
  have "url_to_path (snd ?good) ''https://example.com/old.pdf'' = Some ?p" by simp
  ultimately show ?thesis using b g by simp
qed

section \<open>Idempotence of the fetch\<close>

text \<open>
  Claim C4, amended. \<^verbatim>\<open>fetch\<close> runs the guard, with its lookup of the host name, before it
  consults the cache. So after a successful \<^verbatim>\<open>fetch(url)\<close> a second \<^verbatim>\<open>fetch(url)\<close>
  without \<^verbatim>\<open>force_refresh\<close> opens no connection and reads no body, and it returns the cached
  path if the guard passes again, which it does while the resolver answers as it did
  before; if the guard fails this time, the second call fails with the guard's error and
  the state is unchanged but for the trace. With \<^verbatim>\<open>force_refresh\<close> the second call, once
  past the guard, connects to the URL again. The lookup reads the index first and returns
  its path when that file exists; with no entry or a stale one it probes the deterministic
  file name in the cache directory, fills the index on a hit, and reports a miss otherwise.
\<close>

theorem fetch_idempotent:
  assumes "fetch env s url force = (Inr p, s1)"
  shows "(\<forall>r tr2. validate_url env (trace s1) url = (r, tr2) \<longrightarrow>
            fetch env s1 url False = (case r of Inl e \<Rightarrow> Inl e | Inr _ \<Rightarrow> Inr p, s1\<lparr>trace := tr2\<rparr>)
            \<and> (\<forall>u. Connect u \<notin> set (drop (length (trace s1)) tr2))
            \<and> (\<forall>k. ReadChunk k \<notin> set (drop (length (trace s1)) tr2)))
     \<and> ((\<forall>tr h. getaddrinfo env tr h = getaddrinfo env (trace s) h)
          \<longrightarrow> fst (fetch env s1 url False) = Inr p)
     \<and> (\<forall>tr2 r2 s2. validate_url env (trace s1) url = (Inr (), tr2)
            \<and> fetch env s1 url True = (r2, s2)
          \<longrightarrow> (\<exists>rest. trace s2 = tr2 @ Connect url # rest))
     \<and> (\<forall>(t::state) q. url_to_path t url = Some q \<and> fs_exists (files t) q
          \<longrightarrow> get_local_path env t url = (Some q, t))
     \<and> (\<forall>t::state. (\<forall>q. url_to_path t url = Some q \<longrightarrow> \<not> fs_exists (files t) q)
          \<longrightarrow> get_local_path env t url =
              (if fs_exists (files t) (cache_dir t @ [get_cache_filename env url])
               then (Some (cache_dir t @ [get_cache_filename env url]),
                     t\<lparr>url_to_path :=
                         (url_to_path t)(url \<mapsto> cache_dir t @ [get_cache_filename env url])\<rparr>)
               else (None, t)))"
proof (intro conjI allI impI)
  fix r tr2
  assume v: "validate_url env (trace s1) url = (r, tr2)"
  from fetch_registered [OF assms] have reg: "url_to_path s1 url = Some p" "fs_exists (files s1) p"
    by simp_all
  show "fetch env s1 url False = (case r of Inl e \<Rightarrow> Inl e | Inr _ \<Rightarrow> Inr p, s1\<lparr>trace := tr2\<rparr>)"
  proof (cases r)
    case (Inl e)
    with v show ?thesis by (simp add: fetch_blocked)
  next
    case (Inr x)
    with v fetch_cached [OF _ get_local_path_index [OF reg]] show ?thesis by simp
  qed
  from validate_url_trace [OF v] show "Connect u \<notin> set (drop (length (trace s1)) tr2)" for u
    by auto
  from validate_url_trace [OF v] show "ReadChunk k \<notin> set (drop (length (trace s1)) tr2)" for k
    by auto
next
  assume static: "\<forall>tr h. getaddrinfo env tr h = getaddrinfo env (trace s) h"
  from assms obtain tr1 where "validate_url env (trace s) url = (Inr (), tr1)"
    by (cases rule: fetch_cases) simp_all
  then have "fst (validate_url env (trace s1) url) = Inr ()"
    using validate_url_static [of env "trace s1" "trace s" url] static by simp
  then obtain tr2 where v: "validate_url env (trace s1) url = (Inr (), tr2)"
    by (metis prod.collapse)
  from fetch_registered [OF assms] have reg: "url_to_path s1 url = Some p" "fs_exists (files s1) p"
    by simp_all
  from fetch_cached [OF v get_local_path_index [OF reg]]
  show "fst (fetch env s1 url False) = Inr p" by simp
next
  fix tr2 r2 s2
  assume a: "validate_url env (trace s1) url = (Inr (), tr2) \<and> fetch env s1 url True = (r2, s2)"
  then have v: "validate_url env (trace s1) url = (Inr (), tr2)" by simp
  obtain c tc where l: "redirect_loop env MAX_REDIRECTS url tr2 = (c, tc)"
    by (cases "redirect_loop env MAX_REDIRECTS url tr2")
  then have "redirect_loop env (Suc 9) url tr2 = (c, tc)" by (simp add: MAX_REDIRECTS_def)
  from redirect_loop_connects [OF this] obtain rest where "tc = tr2 @ Connect url # rest" ..
  moreover have "trace s2 = tc"
    using a l unfolding fetch_download [OF v disjI1 [OF TrueI]]
    by (auto split: prod.splits sum.splits bool.splits)
  ultimately show "\<exists>rest. trace s2 = tr2 @ Connect url # rest" by blast
next
  fix t :: state and q
  assume "url_to_path t url = Some q \<and> fs_exists (files t) q"
  then show "get_local_path env t url = (Some q, t)" by (simp add: get_local_path_index)
next
  fix t :: state
  assume "\<forall>q. url_to_path t url = Some q \<longrightarrow> \<not> fs_exists (files t) q"
  then show "get_local_path env t url =
              (if fs_exists (files t) (cache_dir t @ [get_cache_filename env url])
               then (Some (cache_dir t @ [get_cache_filename env url]),
                     t\<lparr>url_to_path :=
                         (url_to_path t)(url \<mapsto> cache_dir t @ [get_cache_filename env url])\<rparr>)
               else (None, t))"
    by (auto simp: get_local_path_def Let_def split: option.splits)
qed

theorem fetch_idempotent_witness:
  "fst (fetch world s0 ''https://example.com/old.pdf'' False)
     = Inr [''tmp'', ''pdf-mcp'', ''downloads'', ''73f6027ddc92e918_old.pdf'']
   \<and> fetch world (snd (fetch world s0 ''https://example.com/old.pdf'' False))
        ''https://example.com/old.pdf'' False
     = (Inr [''tmp'', ''pdf-mcp'', ''downloads'', ''73f6027ddc92e918_old.pdf''],
        (snd (fetch world s0 ''https://example.com/old.pdf'' False))
          \<lparr>trace :=
             [Resolve ''example.com'', Connect ''https://example.com/old.pdf'',
              Resolve ''cdn.example.com'', Connect ''https://cdn.example.com/new.pdf'',
              ReadChunk 8, Resolve ''example.com'']\<rparr>)
   \<and> (\<exists>rest.
        trace (snd (fetch world (snd (fetch world s0 ''https://example.com/old.pdf'' False))
                 ''https://example.com/old.pdf'' True))
        = [Resolve ''example.com'', Connect ''https://example.com/old.pdf'',
           Resolve ''cdn.example.com'', Connect ''https://cdn.example.com/new.pdf'',
           ReadChunk 8, Resolve ''example.com'']
          @ Connect ''https://example.com/old.pdf'' # rest)
   \<and> get_local_path world s_full ''https://example.com/old.pdf''
     = (Some [''tmp'', ''pdf-mcp'', ''downloads'', ''73f6027ddc92e918_old.pdf''], s_full)
   \<and> get_local_path world s_stale ''https://example.com/old.pdf'' = (None, s_stale)
   \<and> get_local_path world s_disk ''https://example.com/old.pdf''
     = (Some [''tmp'', ''pdf-mcp'', ''downloads'', ''73f6027ddc92e918_old.pdf''],
        s_disk\<lparr>url_to_path :=
          (url_to_path s_disk)(''https://example.com/old.pdf'' \<mapsto>
             [''tmp'', ''pdf-mcp'', ''downloads'', ''73f6027ddc92e918_old.pdf''])\<rparr>)"
proof -
  let ?u = "''https://example.com/old.pdf''"
  let ?p = "[''tmp'', ''pdf-mcp'', ''downloads'', ''73f6027ddc92e918_old.pdf'']"
  let ?s1 = "snd (fetch world s0 ?u False)"
  let ?tr2 = "[Resolve ''example.com'', Connect ''https://example.com/old.pdf'',
              Resolve ''cdn.example.com'', Connect ''https://cdn.example.com/new.pdf'',
              ReadChunk 8, Resolve ''example.com'']"
  have one: "fst (fetch world s0 ?u False) = Inr ?p" by code_simp
  then have first: "fetch world s0 ?u False = (Inr ?p, ?s1)" by (metis prod.collapse)
  have v: "validate_url world (trace ?s1) ?u = (Inr (), ?tr2)" by code_simp
  note r = fetch_idempotent [OF first]
  from r v have two: "fetch world ?s1 ?u False = (Inr ?p, ?s1\<lparr>trace := ?tr2\<rparr>)"
    by auto
  have "fetch world ?s1 ?u True = (fst (fetch world ?s1 ?u True), snd (fetch world ?s1 ?u True))"
    by simp
  with r v have three: "\<exists>rest. trace (snd (fetch world ?s1 ?u True)) = ?tr2 @ Connect ?u # rest"
    by blast
  have "url_to_path s_full ?u = Some ?p \<and> fs_exists (files s_full) ?p" by code_simp
  with r have hit: "get_local_path world s_full ?u = (Some ?p, s_full)" by blast
  have name: "cache_dir s0 @ [get_cache_filename world ?u] = ?p" by code_simp
  have "\<forall>q. url_to_path s_stale ?u = Some q \<longrightarrow> \<not> fs_exists (files s_stale) q"
    by (simp add: s_stale_def s0_def fs_exists_def)
  moreover have "\<not> fs_exists (files s_stale) (cache_dir s_stale @ [get_cache_filename world ?u])"
    by (simp add: s_stale_def s0_def fs_exists_def)
  ultimately have stale: "get_local_path world s_stale ?u = (None, s_stale)"
    using r by simp
  have "\<forall>q. url_to_path s_disk ?u = Some q \<longrightarrow> \<not> fs_exists (files s_disk) q"
    by (simp add: s_disk_def s0_def)
  moreover have "cache_dir s_disk @ [get_cache_filename world ?u] = ?p
      \<and> fs_exists (files s_disk) ?p"
    using name by (simp add: s_disk_def s0_def fs_exists_def pdf_bytes_def)
  ultimately have disk: "get_local_path world s_disk ?u
      = (Some ?p, s_disk\<lparr>url_to_path := (url_to_path s_disk)(?u \<mapsto> ?p)\<rparr>)"
    using r by simp
  from one two three hit stale disk show ?thesis by (intro conjI)
qed

text \<open>
  The claim as it was stated, that the second call returns the cached path whatever
  happens, fails when the resolver stops answering after the download: the file is in the
  cache, yet the second call is blocked by the guard, and so is a second call with
  \<^verbatim>\<open>force_refresh\<close>, which makes no second transfer.
\<close>

theorem fetch_idempotent_counterexample:
  "fst (fetch world_offline s0 ''https://example.com/old.pdf'' False)
     = Inr [''tmp'', ''pdf-mcp'', ''downloads'', ''73f6027ddc92e918_old.pdf'']
   \<and> fs_exists (files (snd (fetch world_offline s0 ''https://example.com/old.pdf'' False)))
        [''tmp'', ''pdf-mcp'', ''downloads'', ''73f6027ddc92e918_old.pdf'']
   \<and> fst (fetch world_offline (snd (fetch world_offline s0 ''https://example.com/old.pdf'' False))
          ''https://example.com/old.pdf'' False)
     = Inl (BlockedURL PrivateAddress)
   \<and> fst (fetch world_offline (snd (fetch world_offline s0 ''https://example.com/old.pdf'' False))
          ''https://example.com/old.pdf'' True)
     = Inl (BlockedURL PrivateAddress)
   \<and> trace (snd (fetch world_offline
          (snd (fetch world_offline s0 ''https://example.com/old.pdf'' False))
          ''https://example.com/old.pdf'' True))
     = [Resolve ''example.com'', Connect ''https://example.com/old.pdf'',
        Resolve ''cdn.example.com'', Connect ''https://cdn.example.com/new.pdf'',
        ReadChunk 8, Resolve ''example.com'']"
  by code_simp

section \<open>The download budget\<close>

text \<open>
  Claim C3. On a response that is no redirect and no error status, at any hop: a
  \<^verbatim>\<open>Content-Length\<close> above the maximum fails with \<open>TooLarge\<close> before any chunk is read (the
  trace ends with the connection). With no such header, an empty one or one within the
  maximum, a body whose chunks add up to more than the maximum fails with \<open>TooLarge\<close> at
  the first chunk that takes the running total over the maximum: the chunks up to and
  including that one are read, none after it. A fetch that goes straight to such a response
  fails in the same way and changes nothing but the trace. The maximum is 100 MB.
\<close>

theorem download_size_enforced:
  "(client_stream env tr u = Response resp \<and> \<not> is_redirect resp \<and> \<not> raises_for_status resp
      \<and> content_length resp = Some cl \<and> cl \<noteq> [] \<and> int_of_str env cl = Some n
      \<and> MAX_DOWNLOAD_SIZE < n
     \<longrightarrow> redirect_loop env (Suc k) u tr = (Inl (TooLarge Declared), tr @ [Connect u])
        \<and> (validate_url env (trace s) u = (Inr (), tr) \<and> (force \<or> fst (get_local_path env s u) = None)
           \<longrightarrow> fetch env s u force = (Inl (TooLarge Declared), s\<lparr>trace := tr @ [Connect u]\<rparr>)))
   \<and> (client_stream env tr u = Response resp \<and> \<not> is_redirect resp \<and> \<not> raises_for_status resp
      \<and> (content_length resp = None \<or> content_length resp = Some []
          \<or> (\<exists>cl m. content_length resp = Some cl \<and> int_of_str env cl = Some m
                \<and> m \<le> MAX_DOWNLOAD_SIZE))
      \<and> iter_bytes resp = map Chunk bs @ later
      \<and> MAX_DOWNLOAD_SIZE < int (length (concat bs))
     \<longrightarrow> (\<exists>pre c rest. bs = pre @ c # rest
            \<and> int (length (concat pre)) \<le> MAX_DOWNLOAD_SIZE
            \<and> MAX_DOWNLOAD_SIZE < int (length (concat pre)) + int (length c)
            \<and> redirect_loop env (Suc k) u tr =
                (Inl (TooLarge Streamed),
                 tr @ Connect u # map (\<lambda>b. ReadChunk (length b)) (pre @ [c]))
            \<and> (validate_url env (trace s) u = (Inr (), tr)
                 \<and> (force \<or> fst (get_local_path env s u) = None)
               \<longrightarrow> fetch env s u force =
                    (Inl (TooLarge Streamed),
                     s\<lparr>trace := tr @ Connect u # map (\<lambda>b. ReadChunk (length b)) (pre @ [c])\<rparr>))))
   \<and> MAX_DOWNLOAD_SIZE = 100 * 1024 * 1024"
proof (intro conjI impI)
  assume a: "client_stream env tr u = Response resp \<and> \<not> is_redirect resp
      \<and> \<not> raises_for_status resp
      \<and> content_length resp = Some cl \<and> cl \<noteq> [] \<and> int_of_str env cl = Some n
      \<and> MAX_DOWNLOAD_SIZE < n"
  then have "receive env resp (tr @ [Connect u]) = (Inl (TooLarge Declared), tr @ [Connect u])"
    by (simp add: receive_declared)
  with a show l: "redirect_loop env (Suc k) u tr = (Inl (TooLarge Declared), tr @ [Connect u])"
    for k by (simp add: redirect_loop_receive)
  assume "validate_url env (trace s) u = (Inr (), tr) \<and> (force \<or> fst (get_local_path env s u) = None)"
  then show "fetch env s u force = (Inl (TooLarge Declared), s\<lparr>trace := tr @ [Connect u]\<rparr>)"
    using fetch_loop_error [of env s u tr force] l [of 9] by (simp add: MAX_REDIRECTS_def)
next
  assume a: "client_stream env tr u = Response resp \<and> \<not> is_redirect resp
      \<and> \<not> raises_for_status resp
      \<and> (content_length resp = None \<or> content_length resp = Some []
          \<or> (\<exists>cl m. content_length resp = Some cl \<and> int_of_str env cl = Some m
                \<and> m \<le> MAX_DOWNLOAD_SIZE))
      \<and> iter_bytes resp = map Chunk bs @ later
      \<and> MAX_DOWNLOAD_SIZE < int (length (concat bs))"
  then have big: "MAX_DOWNLOAD_SIZE < 0 + int (length (concat bs))" by simp
  have "0 \<le> MAX_DOWNLOAD_SIZE" by (simp add: MAX_DOWNLOAD_SIZE_def)
  from crossing_exists [OF big this] obtain pre c rest where
    split: "bs = pre @ c # rest"
    and le: "0 + int (length (concat pre)) \<le> MAX_DOWNLOAD_SIZE"
    and gt: "MAX_DOWNLOAD_SIZE < 0 + int (length (concat pre)) + int (length c)"
    by (elim exE conjE)
  let ?tr' = "tr @ Connect u # map (\<lambda>b. ReadChunk (length b)) (pre @ [c])"
  from a split have body: "iter_bytes resp = map Chunk pre @ Chunk c # (map Chunk rest @ later)"
    by simp
  have rb: "read_body (iter_bytes resp) 0 [] (tr @ [Connect u]) = (Inl (TooLarge Streamed), ?tr')"
    unfolding body using read_body_crossing [OF le gt, of "map Chunk rest @ later" "[]" "tr @ [Connect u]"]
    by simp
  from a have nr: "\<not> raises_for_status resp"
    and hdr: "content_length resp = None \<or> content_length resp = Some []
          \<or> (\<exists>cl m. content_length resp = Some cl \<and> int_of_str env cl = Some m
                \<and> m \<le> MAX_DOWNLOAD_SIZE)"
    by simp_all
  have "receive env resp (tr @ [Connect u]) = (Inl (TooLarge Streamed), ?tr')"
    by (simp add: receive_body [OF nr hdr] rb)
  with a have l: "redirect_loop env (Suc k) u tr = (Inl (TooLarge Streamed), ?tr')" for k
    by (simp add: redirect_loop_receive)
  have f: "validate_url env (trace s) u = (Inr (), tr) \<and> (force \<or> fst (get_local_path env s u) = None)
      \<longrightarrow> fetch env s u force = (Inl (TooLarge Streamed), s\<lparr>trace := ?tr'\<rparr>)"
    using fetch_loop_error [of env s u tr force] l [of 9] by (simp add: MAX_REDIRECTS_def)
  from split le gt l [of k] f
  have "bs = pre @ c # rest
            \<and> int (length (concat pre)) \<le> MAX_DOWNLOAD_SIZE
            \<and> MAX_DOWNLOAD_SIZE < int (length (concat pre)) + int (length c)
            \<and> redirect_loop env (Suc k) u tr = (Inl (TooLarge Streamed), ?tr')
            \<and> (validate_url env (trace s) u = (Inr (), tr)
                 \<and> (force \<or> fst (get_local_path env s u) = None)
               \<longrightarrow> fetch env s u force = (Inl (TooLarge Streamed), s\<lparr>trace := ?tr'\<rparr>))"
    by simp
  then show "\<exists>pre c rest. bs = pre @ c # rest
            \<and> int (length (concat pre)) \<le> MAX_DOWNLOAD_SIZE
            \<and> MAX_DOWNLOAD_SIZE < int (length (concat pre)) + int (length c)
            \<and> redirect_loop env (Suc k) u tr =
                (Inl (TooLarge Streamed),
                 tr @ Connect u # map (\<lambda>b. ReadChunk (length b)) (pre @ [c]))
            \<and> (validate_url env (trace s) u = (Inr (), tr)
                 \<and> (force \<or> fst (get_local_path env s u) = None)
               \<longrightarrow> fetch env s u force =
                    (Inl (TooLarge Streamed),
                     s\<lparr>trace := tr @ Connect u # map (\<lambda>b. ReadChunk (length b)) (pre @ [c])\<rparr>))"
    by - (rule exI [of _ pre], rule exI [of _ c], rule exI [of _ rest], assumption)
next
  show "MAX_DOWNLOAD_SIZE = 100 * 1024 * 1024" by (simp add: MAX_DOWNLOAD_SIZE_def)
qed

theorem download_size_enforced_witness:
  "fetch world s0 ''https://example.com/huge.pdf'' False
     = (Inl (TooLarge Declared),
        s0\<lparr>trace := [Resolve ''example.com'', Connect ''https://example.com/huge.pdf'']\<rparr>)
   \<and> fst (fetch world_stream s0 ''https://example.com/stream.pdf'' False) = Inl (TooLarge Streamed)"
proof -
  let ?huge = "''https://example.com/huge.pdf''"
  let ?stream = "''https://example.com/stream.pdf''"
  let ?tr = "[Resolve ''example.com'']"
  let ?resp = "ok_response (Some ''200000000'') (Some ''application/pdf'') [Chunk pdf_bytes]"
  let ?big = "ok_response None (Some ''application/pdf'') (map Chunk (replicate 12801 big_chunk))"
  have h1: "client_stream world ?tr ?huge = Response ?resp \<and> \<not> is_redirect ?resp
      \<and> \<not> raises_for_status ?resp
      \<and> content_length ?resp = Some ''200000000'' \<and> ''200000000'' \<noteq> []
      \<and> int_of_str world ''200000000'' = Some 200000000
      \<and> MAX_DOWNLOAD_SIZE < 200000000"
    by code_simp
  have h2: "validate_url world (trace s0) ?huge = (Inr (), ?tr)
      \<and> (False \<or> fst (get_local_path world s0 ?huge) = None)"
    by code_simp
  from download_size_enforced
    [of world ?tr ?huge ?resp "''200000000''" 200000000 9 s0 False] h1 h2
  have declared: "fetch world s0 ?huge False
      = (Inl (TooLarge Declared), s0\<lparr>trace := ?tr @ [Connect ?huge]\<rparr>)"
    by blast
  have same: "urlparse world_stream = urlparse world" "getaddrinfo world_stream = getaddrinfo world"
    "ip_address world_stream = ip_address world" "sha256 world_stream = sha256 world"
    by (simp_all add: world_stream_def)
  have "validate_url world (trace s0) ?stream = (Inr (), ?tr)
      \<and> (False \<or> fst (get_local_path world s0 ?stream) = None)"
    by code_simp
  then have g2: "validate_url world_stream (trace s0) ?stream = (Inr (), ?tr)
      \<and> (False \<or> fst (get_local_path world_stream s0 ?stream) = None)"
    by (simp add: validate_url_cong [OF same(1,2,3)] get_local_path_cong [OF same(1,4)])
  have g1: "client_stream world_stream ?tr ?stream = Response ?big \<and> \<not> is_redirect ?big
      \<and> \<not> raises_for_status ?big
      \<and> (content_length ?big = None \<or> content_length ?big = Some []
          \<or> (\<exists>cl m. content_length ?big = Some cl \<and> int_of_str world_stream cl = Some m
                \<and> m \<le> MAX_DOWNLOAD_SIZE))
      \<and> iter_bytes ?big = map Chunk (replicate 12801 big_chunk) @ []
      \<and> MAX_DOWNLOAD_SIZE < int (length (concat (replicate 12801 big_chunk)))"
    by (simp add: world_stream_def ok_response_def MAX_DOWNLOAD_SIZE_def big_chunk_def
        length_concat sum_list_replicate)
  from download_size_enforced
    [of world_stream ?tr ?stream ?big _ _ 9 s0 False "replicate 12801 big_chunk" "[]"] g1 g2
  have "fst (fetch world_stream s0 ?stream False) = Inl (TooLarge Streamed)"
    by force
  with declared show ?thesis by simp
qed

section \<open>The content check\<close>

lemma char_code: "x = c \<longleftrightarrow> (of_char x :: nat) = of_char c"
  by simp

lemma lower_char_iff:
  assumes "97 \<le> (of_char c :: nat)" "(of_char c :: nat) \<le> 122"
  shows "lower_char x = c \<longleftrightarrow> x = c \<or> (of_char x :: nat) + 32 = of_char c"
proof (cases "65 \<le> (of_char x :: nat) \<and> (of_char x :: nat) \<le> 90")
  case True
  then have "lower_char x = char_of (of_char x + 32 :: nat)" by (simp add: lower_char_def)
  moreover have "char_of (of_char x + 32 :: nat) = c \<longleftrightarrow> (of_char x :: nat) + 32 = of_char c"
    using True by (simp add: char_of_eq_iff take_bit_eq_mod)
  moreover have "x \<noteq> c" using True assms by auto
  ultimately show ?thesis by simp
next
  case False
  then have "lower_char x = x" by (auto simp: lower_char_def)
  moreover have "(of_char x :: nat) + 32 \<noteq> of_char c" using False assms by auto
  ultimately show ?thesis by simp
qed

lemma lower_char_pdf:
  "lower_char x = CHR ''p'' \<longleftrightarrow> x = CHR ''p'' \<or> x = CHR ''P''"
  "lower_char x = CHR ''d'' \<longleftrightarrow> x = CHR ''d'' \<or> x = CHR ''D''"
  "lower_char x = CHR ''f'' \<longleftrightarrow> x = CHR ''f'' \<or> x = CHR ''F''"
proof -
  have "lower_char x = CHR ''p'' \<longleftrightarrow> x = CHR ''p'' \<or> (of_char x :: nat) + 32 = of_char CHR ''p''"
    by (rule lower_char_iff) simp_all
  moreover have "(of_char x :: nat) + 32 = of_char CHR ''p'' \<longleftrightarrow> x = CHR ''P''"
    by (subst char_code [of x "CHR ''P''"]) auto
  ultimately show "lower_char x = CHR ''p'' \<longleftrightarrow> x = CHR ''p'' \<or> x = CHR ''P''" by simp
  have "lower_char x = CHR ''d'' \<longleftrightarrow> x = CHR ''d'' \<or> (of_char x :: nat) + 32 = of_char CHR ''d''"
    by (rule lower_char_iff) simp_all
  moreover have "(of_char x :: nat) + 32 = of_char CHR ''d'' \<longleftrightarrow> x = CHR ''D''"
    by (subst char_code [of x "CHR ''D''"]) auto
  ultimately show "lower_char x = CHR ''d'' \<longleftrightarrow> x = CHR ''d'' \<or> x = CHR ''D''" by simp
  have "lower_char x = CHR ''f'' \<longleftrightarrow> x = CHR ''f'' \<or> (of_char x :: nat) + 32 = of_char CHR ''f''"
    by (rule lower_char_iff) simp_all
  moreover have "(of_char x :: nat) + 32 = of_char CHR ''f'' \<longleftrightarrow> x = CHR ''F''"
    by (subst char_code [of x "CHR ''F''"]) auto
  ultimately show "lower_char x = CHR ''f'' \<longleftrightarrow> x = CHR ''f'' \<or> x = CHR ''F''" by simp
qed

lemma pdf_in_lower:
  "str_in ''pdf'' (lower t) \<longleftrightarrow>
     (\<exists>a x y z b. t = a @ [x, y, z] @ b \<and> x \<in> {CHR ''p'', CHR ''P''}
        \<and> y \<in> {CHR ''d'', CHR ''D''} \<and> z \<in> {CHR ''f'', CHR ''F''})"
proof
  assume "str_in ''pdf'' (lower t)"
  then have "\<exists>a' b'. map lower_char t = a' @ ''pdf'' @ b'"
    by (simp only: str_in_iff lower_def)
  then show "\<exists>a x y z b. t = a @ [x, y, z] @ b \<and> x \<in> {CHR ''p'', CHR ''P''}
        \<and> y \<in> {CHR ''d'', CHR ''D''} \<and> z \<in> {CHR ''f'', CHR ''F''}"
  proof (elim exE)
    fix a' b'
    assume "map lower_char t = a' @ ''pdf'' @ b'"
    then obtain a x y z b where t: "t = a @ x # y # z # b"
      and l: "CHR ''p'' = lower_char x" "CHR ''d'' = lower_char y" "CHR ''f'' = lower_char z"
      by (auto simp: map_eq_append_conv)
    from l have "x \<in> {CHR ''p'', CHR ''P''} \<and> y \<in> {CHR ''d'', CHR ''D''}
        \<and> z \<in> {CHR ''f'', CHR ''F''}"
      using lower_char_pdf(1) [of x] lower_char_pdf(2) [of y] lower_char_pdf(3) [of z] by simp
    with t have "t = a @ [x, y, z] @ b \<and> x \<in> {CHR ''p'', CHR ''P''}
        \<and> y \<in> {CHR ''d'', CHR ''D''} \<and> z \<in> {CHR ''f'', CHR ''F''}"
      by simp
    then show ?thesis
      by - (rule exI [of _ a], rule exI [of _ x], rule exI [of _ y], rule exI [of _ z],
          rule exI [of _ b], assumption)
  qed
next
  assume "\<exists>a x y z b. t = a @ [x, y, z] @ b \<and> x \<in> {CHR ''p'', CHR ''P''}
        \<and> y \<in> {CHR ''d'', CHR ''D''} \<and> z \<in> {CHR ''f'', CHR ''F''}"
  then show "str_in ''pdf'' (lower t)"
  proof (elim exE conjE)
    fix a x y z b
    assume t: "t = a @ [x, y, z] @ b" and "x \<in> {CHR ''p'', CHR ''P''}"
      "y \<in> {CHR ''d'', CHR ''D''}" "z \<in> {CHR ''f'', CHR ''F''}"
    then have "lower_char x = CHR ''p''" "lower_char y = CHR ''d''" "lower_char z = CHR ''f''"
      using lower_char_pdf(1) [of x] lower_char_pdf(2) [of y] lower_char_pdf(3) [of z]
      by simp_all
    with t have "lower t = lower a @ ''pdf'' @ lower b" by (simp add: lower_def)
    then have "\<exists>p q. lower t = p @ ''pdf'' @ q"
      by - (rule exI [of _ "lower a"], rule exI [of _ "lower b"], assumption)
    then show ?thesis by (simp only: str_in_iff)
  qed
qed

lemma read_body_all:
  assumes "int (length (concat bs)) \<le> MAX_DOWNLOAD_SIZE"
  shows "read_body (map Chunk bs) 0 [] tr = (Inr bs, tr @ map (\<lambda>b. ReadChunk (length b)) bs)"
  using read_body_chunks [of 0 bs "[]" "[]" tr] assms by simp

text \<open>
  Claim C5. On a response that is no redirect and no error status, whose declared size
  passes and whose body arrives whole within the maximum, at any hop: the download yields
  the body if the \<^verbatim>\<open>Content-Type\<close> header (empty when absent), put in lower case, contains
  \<^verbatim>\<open>pdf\<close>, or if the body starts with \<^verbatim>\<open>%PDF\<close>; if neither holds it fails with
  \<open>NotAPDF\<close>. A fetch that goes straight to such a response returns the cache path in the
  first case (the disk permitting) and \<open>NotAPDF\<close> in the second. Containing \<^verbatim>\<open>pdf\<close> in
  lower case means containing the three letters in a row, each in either case.
\<close>

theorem content_type_or_magic:
  "(client_stream env tr u = Response resp \<and> \<not> is_redirect resp \<and> \<not> raises_for_status resp
      \<and> (content_length resp = None \<or> content_length resp = Some []
          \<or> (\<exists>cl m. content_length resp = Some cl \<and> int_of_str env cl = Some m
                \<and> m \<le> MAX_DOWNLOAD_SIZE))
      \<and> iter_bytes resp = map Chunk bs \<and> int (length (concat bs)) \<le> MAX_DOWNLOAD_SIZE
      \<and> ctype = (case content_type resp of None \<Rightarrow> [] | Some v \<Rightarrow> v)
     \<longrightarrow> redirect_loop env (Suc k) u tr =
          (if str_in ''pdf'' (lower ctype) \<or> startswith (concat bs) ''%PDF''
           then Inr (concat bs) else Inl NotAPDF,
           tr @ Connect u # map (\<lambda>b. ReadChunk (length b)) bs)
        \<and> (validate_url env (trace s) u = (Inr (), tr)
             \<and> (force \<or> fst (get_local_path env s u) = None)
             \<and> write_fault env (cache_dir s @ [get_cache_filename env u]) = NoFault
           \<longrightarrow> fst (fetch env s u force) =
                (if str_in ''pdf'' (lower ctype) \<or> startswith (concat bs) ''%PDF''
                 then Inr (cache_dir s @ [get_cache_filename env u]) else Inl NotAPDF)))
   \<and> (str_in ''pdf'' (lower t) \<longleftrightarrow>
        (\<exists>a x y z b. t = a @ [x, y, z] @ b \<and> x \<in> {CHR ''p'', CHR ''P''}
           \<and> y \<in> {CHR ''d'', CHR ''D''} \<and> z \<in> {CHR ''f'', CHR ''F''}))
   \<and> (startswith c ''%PDF'' \<longleftrightarrow> (\<exists>q. c = ''%PDF'' @ q))"
proof (intro conjI impI)
  assume a: "client_stream env tr u = Response resp \<and> \<not> is_redirect resp
      \<and> \<not> raises_for_status resp
      \<and> (content_length resp = None \<or> content_length resp = Some []
          \<or> (\<exists>cl m. content_length resp = Some cl \<and> int_of_str env cl = Some m
                \<and> m \<le> MAX_DOWNLOAD_SIZE))
      \<and> iter_bytes resp = map Chunk bs \<and> int (length (concat bs)) \<le> MAX_DOWNLOAD_SIZE
      \<and> ctype = (case content_type resp of None \<Rightarrow> [] | Some v \<Rightarrow> v)"
  let ?ok = "str_in ''pdf'' (lower ctype) \<or> startswith (concat bs) ''%PDF''"
  let ?tr' = "tr @ Connect u # map (\<lambda>b. ReadChunk (length b)) bs"
  from a have nr: "\<not> raises_for_status resp"
    and hdr: "content_length resp = None \<or> content_length resp = Some []
          \<or> (\<exists>cl m. content_length resp = Some cl \<and> int_of_str env cl = Some m
                \<and> m \<le> MAX_DOWNLOAD_SIZE)"
    and body: "iter_bytes resp = map Chunk bs"
    and size: "int (length (concat bs)) \<le> MAX_DOWNLOAD_SIZE"
    and ct: "ctype = (case content_type resp of None \<Rightarrow> [] | Some v \<Rightarrow> v)"
    by simp_all
  have rb: "read_body (iter_bytes resp) 0 [] (tr @ [Connect u]) = (Inr bs, ?tr')"
    unfolding body using read_body_all [OF size, of "tr @ [Connect u]"] by simp
  have "receive env resp (tr @ [Connect u]) = (if ?ok then Inr (concat bs) else Inl NotAPDF, ?tr')"
    by (simp add: receive_body [OF nr hdr] rb ct)
  with a show l: "redirect_loop env (Suc k) u tr = (if ?ok then Inr (concat bs) else Inl NotAPDF, ?tr')"
    for k by (simp add: redirect_loop_receive)
  assume f: "validate_url env (trace s) u = (Inr (), tr)
      \<and> (force \<or> fst (get_local_path env s u) = None)
      \<and> write_fault env (cache_dir s @ [get_cache_filename env u]) = NoFault"
  then have v: "validate_url env (trace s) u = (Inr (), tr)"
    and m: "force \<or> fst (get_local_path env s u) = None" by simp_all
  from f l [of 9] show "fst (fetch env s u force) =
      (if ?ok then Inr (cache_dir s @ [get_cache_filename env u]) else Inl NotAPDF)"
    by (simp add: fetch_download [OF v m] MAX_REDIRECTS_def os_write_file_def)
next
  show "str_in ''pdf'' (lower t) \<longleftrightarrow>
        (\<exists>a x y z b. t = a @ [x, y, z] @ b \<and> x \<in> {CHR ''p'', CHR ''P''}
           \<and> y \<in> {CHR ''d'', CHR ''D''} \<and> z \<in> {CHR ''f'', CHR ''F''})"
    by (rule pdf_in_lower)
  show "startswith c ''%PDF'' \<longleftrightarrow> (\<exists>q. c = ''%PDF'' @ q)"
    by (rule startswith_iff)
qed

theorem content_type_or_magic_witness:
  "fst (fetch world s0 ''https://example.com/notapdf.html'' False) = Inl NotAPDF
   \<and> fst (fetch world s0 ''https://example.com/api/download?id=123'' False)
       = Inr [''tmp'', ''pdf-mcp'', ''downloads'', ''27282d117d4a84c0.pdf'']
   \<and> fst (fetch world s0 ''https://example.com/upper'' False)
       = Inr [''tmp'', ''pdf-mcp'', ''downloads'', ''e8ad8603de52a25d.pdf'']"
proof -
  let ?tr = "[Resolve ''example.com'']"
  let ?html = "''https://example.com/notapdf.html''"
  let ?r1 = "ok_response None (Some ''text/html'') [Chunk ''<html>Not a PDF</html>'']"
  let ?api = "''https://example.com/api/download?id=123''"
  let ?r2 = "ok_response (Some ''8'') (Some ''application/octet-stream'') [Chunk pdf_bytes]"
  let ?upper = "''https://example.com/upper''"
  let ?r3 = "ok_response None (Some ''Application/PDF'') [Chunk ''no marker'']"
  have h1: "client_stream world ?tr ?html = Response ?r1 \<and> \<not> is_redirect ?r1
      \<and> \<not> raises_for_status ?r1
      \<and> (content_length ?r1 = None \<or> content_length ?r1 = Some []
          \<or> (\<exists>cl m. content_length ?r1 = Some cl \<and> int_of_str world cl = Some m
                \<and> m \<le> MAX_DOWNLOAD_SIZE))
      \<and> iter_bytes ?r1 = map Chunk [''<html>Not a PDF</html>'']
      \<and> int (length (concat [''<html>Not a PDF</html>''])) \<le> MAX_DOWNLOAD_SIZE
      \<and> ''text/html'' = (case content_type ?r1 of None \<Rightarrow> [] | Some v \<Rightarrow> v)"
    by (simp add: world_def pages_def ok_response_def MAX_DOWNLOAD_SIZE_def)
  have f1: "validate_url world (trace s0) ?html = (Inr (), ?tr)
      \<and> (False \<or> fst (get_local_path world s0 ?html) = None)
      \<and> write_fault world (cache_dir s0 @ [get_cache_filename world ?html]) = NoFault"
    by code_simp
  have n1: "\<not> (str_in ''pdf'' (lower ''text/html'')
      \<or> startswith (concat [''<html>Not a PDF</html>'']) ''%PDF'')"
    by code_simp
  from content_type_or_magic
    [of world ?tr ?html ?r1 "[''<html>Not a PDF</html>'']" "''text/html''" 9 s0 False] h1 f1 n1
  have 1: "fst (fetch world s0 ?html False) = Inl NotAPDF" by simp
  have h2: "client_stream world ?tr ?api = Response ?r2 \<and> \<not> is_redirect ?r2
      \<and> \<not> raises_for_status ?r2
      \<and> (content_length ?r2 = None \<or> content_length ?r2 = Some []
          \<or> (\<exists>cl m. content_length ?r2 = Some cl \<and> int_of_str world cl = Some m
                \<and> m \<le> MAX_DOWNLOAD_SIZE))
      \<and> iter_bytes ?r2 = map Chunk [pdf_bytes]
      \<and> int (length (concat [pdf_bytes])) \<le> MAX_DOWNLOAD_SIZE
      \<and> ''application/octet-stream'' = (case content_type ?r2 of None \<Rightarrow> [] | Some v \<Rightarrow> v)"
    by (simp add: world_def pages_def ok_response_def MAX_DOWNLOAD_SIZE_def pdf_bytes_def)
  have f2: "validate_url world (trace s0) ?api = (Inr (), ?tr)
      \<and> (False \<or> fst (get_local_path world s0 ?api) = None)
      \<and> write_fault world (cache_dir s0 @ [get_cache_filename world ?api]) = NoFault"
    by code_simp
  have n2: "startswith (concat [pdf_bytes]) ''%PDF''
      \<and> cache_dir s0 @ [get_cache_filename world ?api]
          = [''tmp'', ''pdf-mcp'', ''downloads'', ''27282d117d4a84c0.pdf'']"
    by code_simp
  from content_type_or_magic
    [of world ?tr ?api ?r2 "[pdf_bytes]" "''application/octet-stream''" 9 s0 False] h2 f2 n2
  have 2: "fst (fetch world s0 ?api False)
      = Inr [''tmp'', ''pdf-mcp'', ''downloads'', ''27282d117d4a84c0.pdf'']" by simp
  have h3: "client_stream world ?tr ?upper = Response ?r3 \<and> \<not> is_redirect ?r3
      \<and> \<not> raises_for_status ?r3
      \<and> (content_length ?r3 = None \<or> content_length ?r3 = Some []
          \<or> (\<exists>cl m. content_length ?r3 = Some cl \<and> int_of_str world cl = Some m
                \<and> m \<le> MAX_DOWNLOAD_SIZE))
      \<and> iter_bytes ?r3 = map Chunk [''no marker'']
      \<and> int (length (concat [''no marker''])) \<le> MAX_DOWNLOAD_SIZE
      \<and> ''Application/PDF'' = (case content_type ?r3 of None \<Rightarrow> [] | Some v \<Rightarrow> v)"
    by (simp add: world_def pages_def ok_response_def MAX_DOWNLOAD_SIZE_def)
  have f3: "validate_url world (trace s0) ?upper = (Inr (), ?tr)
      \<and> (False \<or> fst (get_local_path world s0 ?upper) = None)
      \<and> write_fault world (cache_dir s0 @ [get_cache_filename world ?upper]) = NoFault"
    by code_simp
  have n3: "str_in ''pdf'' (lower ''Application/PDF'')
      \<and> \<not> startswith (concat [''no marker'']) ''%PDF''
      \<and> cache_dir s0 @ [get_cache_filename world ?upper]
          = [''tmp'', ''pdf-mcp'', ''downloads'', ''e8ad8603de52a25d.pdf'']"
    by code_simp
  from content_type_or_magic
    [of world ?tr ?upper ?r3 "[''no marker'']" "''Application/PDF''" 9 s0 False] h3 f3 n3
  have 3: "fst (fetch world s0 ?upper False)
      = Inr [''tmp'', ''pdf-mcp'', ''downloads'', ''e8ad8603de52a25d.pdf'']" by simp
  from 1 2 3 show ?thesis by (intro conjI)
qed

section \<open>Redirects\<close>

lemma in_order_append:
  "in_order env h (xs @ ys) \<longleftrightarrow> in_order env h xs \<and> in_order env (h @ xs) ys"
  by (induction xs arbitrary: h) simp_all

lemma in_order_split:
  "in_order env h (pre @ e # post) \<Longrightarrow> allowed env (h @ pre) e"
  by (simp add: in_order_append)

lemma in_order_guard:
  assumes "validate_url env tr t = (v, tv)"
  shows "\<exists>g. tv = tr @ g \<and> in_order env tr g"
proof -
  from validate_url_trace [OF assms] have "tv = tr @ [] \<or> (\<exists>h. tv = tr @ [Resolve h])" by simp
  then show ?thesis
  proof
    assume "tv = tr @ []"
    moreover have "in_order env tr []" by simp
    ultimately show ?thesis by blast
  next
    assume "\<exists>h. tv = tr @ [Resolve h]"
    then obtain h where "tv = tr @ [Resolve h]" ..
    moreover have "in_order env tr [Resolve h]" by (simp add: allowed_def)
    ultimately show ?thesis by blast
  qed
qed

lemma in_order_reads:
  assumes "client_stream env tr u = Response resp" "\<not> is_redirect resp"
  shows "in_order env (tr @ Connect u # map ReadChunk ks0) (map ReadChunk ks)"
proof (induction ks arbitrary: ks0)
  case Nil
  then show ?case by simp
next
  case (Cons k ks)
  have "allowed env (tr @ Connect u # map ReadChunk ks0) (ReadChunk k)"
    unfolding allowed_def using assms by auto
  moreover have "in_order env (tr @ Connect u # map ReadChunk (ks0 @ [k])) (map ReadChunk ks)"
    by (rule Cons.IH)
  ultimately show ?case by simp
qed

lemma in_order_loop:
  assumes "redirect_loop env n u tr = (r, tr')"
    and "\<exists>before. validate_url env before u = (Inr (), tr)"
  shows "\<exists>new. tr' = tr @ new \<and> in_order env tr new"
  using assms
proof (induction n arbitrary: u tr)
  case 0
  then have "tr' = tr @ []" by simp
  moreover have "in_order env tr []" by simp
  ultimately show ?case by blast
next
  case (Suc n)
  have c: "allowed env tr (Connect u)" using Suc.prems(2) by (simp add: allowed_def)
  have stop: "\<exists>new. tr' = tr @ new \<and> in_order env tr new" if "tr' = tr @ [Connect u]"
  proof -
    have "in_order env tr [Connect u]" using c by simp
    with that show ?thesis by blast
  qed
  show ?case
  proof (cases "client_stream env tr u")
    case ConnectError
    with Suc.prems(1) show ?thesis by (intro stop) simp
  next
    case (Response resp)
    show ?thesis
    proof (cases "is_redirect resp")
      case False
      with Response Suc.prems(1) have "receive env resp (tr @ [Connect u]) = (r, tr')" by simp
      from receive_trace [OF this] obtain ks where ks: "tr' = tr @ Connect u # map ReadChunk ks"
        by auto
      from in_order_reads [OF Response False, of "[]" ks] c
      have "in_order env tr (Connect u # map ReadChunk ks)" by simp
      with ks show ?thesis by blast
    next
      case True
      show ?thesis
      proof (cases "next_request resp")
        case None
        with True Response Suc.prems(1) show ?thesis by (intro stop) simp
      next
        case (Some t)
        obtain v tv where v: "validate_url env (tr @ [Connect u]) t = (v, tv)"
          by (cases "validate_url env (tr @ [Connect u]) t")
        from in_order_guard [OF v] obtain g where g: "tv = (tr @ [Connect u]) @ g"
          and og: "in_order env (tr @ [Connect u]) g" by blast
        show ?thesis
        proof (cases v)
          case (Inl e)
          with v Some True Response Suc.prems(1) have "tr' = tv" by simp
          with g have "tr' = tr @ Connect u # g" by simp
          moreover from c og have "in_order env tr (Connect u # g)" by simp
          ultimately show ?thesis by blast
        next
          case (Inr x)
          with v Some True Response Suc.prems(1) have l: "redirect_loop env n t tv = (r, tr')"
            by simp
          from Inr v have "\<exists>before. validate_url env before t = (Inr (), tv)" by auto
          from Suc.IH [OF l this] obtain new where new: "tr' = tv @ new"
            and on: "in_order env tv new" by blast
          from new g have "tr' = tr @ Connect u # g @ new" by simp
          moreover from c og on g have "in_order env tr (Connect u # g @ new)"
            by (simp add: in_order_append)
          ultimately show ?thesis by blast
        qed
      qed
    qed
  qed
qed

lemma in_order_fetch:
  assumes "fetch env s url force = (r, s')"
  shows "\<exists>new. trace s' = trace s @ new \<and> in_order env (trace s) new"
  using assms
proof (cases rule: fetch_cases)
  case (blocked e tr1)
  from in_order_guard [OF blocked(1)] blocked(3) show ?thesis by simp
next
  case (cached tr1 p s2)
  from get_local_path_hit [OF cached(3)] cached(5) have "trace s' = tr1" by simp
  with in_order_guard [OF cached(1)] show ?thesis by simp
next
  case (download tr1)
  obtain c tc where l: "redirect_loop env MAX_REDIRECTS url tr1 = (c, tc)"
    by (cases "redirect_loop env MAX_REDIRECTS url tr1")
  have t: "trace s' = tc"
    using assms l unfolding fetch_download [OF download]
    by (auto split: prod.splits sum.splits bool.splits)
  from in_order_guard [OF download(1)] obtain g where g: "tr1 = trace s @ g"
    and og: "in_order env (trace s) g" by blast
  from download(1) have "\<exists>before. validate_url env before url = (Inr (), tr1)" by blast
  from in_order_loop [OF l this] obtain new where new: "tc = tr1 @ new"
    and on: "in_order env tr1 new" by blast
  from t new g have "trace s' = trace s @ g @ new" by simp
  moreover from og on g have "in_order env (trace s) (g @ new)" by (simp add: in_order_append)
  ultimately show ?thesis by blast
qed

text \<open>
  Claim C1. In every fetch, whatever it returns, each connection is made to a URL on which
  the guard has just run and passed: the trace up to the connection is the trace a passing
  run of the guard on that URL left. This holds for the first URL and for every redirect
  target. A chunk of a body is read only from the response to the last connection, and only
  if that response is no redirect. When the response to a connection is a redirect and the
  guard rejects its target, the download stops there with the guard's error, a
  \<open>BlockedURL\<close>, having contacted at most the resolver since; a fetch whose first response
  is such a redirect fails with that error and changes nothing but the trace. So a public
  URL that redirects to \<^verbatim>\<open>169.254.169.254\<close> is blocked although its own check passes.
\<close>

theorem redirects_validated_hop_by_hop:
  "(fetch env s url force = (r, s') \<longrightarrow>
      (\<exists>new. trace s' = trace s @ new
         \<and> (\<forall>pre u post. new = pre @ Connect u # post
              \<longrightarrow> (\<exists>before. validate_url env before u = (Inr (), trace s @ pre)))
         \<and> (\<forall>pre k post. new = pre @ ReadChunk k # post
              \<longrightarrow> (\<exists>pre' u ks resp. trace s @ pre = pre' @ Connect u # map ReadChunk ks
                     \<and> client_stream env pre' u = Response resp \<and> \<not> is_redirect resp))))
   \<and> (client_stream env tr u = Response resp \<and> is_redirect resp
       \<and> next_request resp = Some target
       \<and> validate_url env (tr @ [Connect u]) target = (Inl e, tr')
      \<longrightarrow> redirect_loop env (Suc k) u tr = (Inl e, tr')
         \<and> (\<exists>b. e = BlockedURL b)
         \<and> (tr' = tr @ [Connect u] \<or> (\<exists>h. tr' = tr @ [Connect u, Resolve h]))
         \<and> (validate_url env (trace s) u = (Inr (), tr)
              \<and> (force \<or> fst (get_local_path env s u) = None)
            \<longrightarrow> fetch env s u force = (Inl e, s\<lparr>trace := tr'\<rparr>)))"
proof (intro conjI impI)
  assume "fetch env s url force = (r, s')"
  from in_order_fetch [OF this] obtain new where new: "trace s' = trace s @ new"
    and ord: "in_order env (trace s) new" by blast
  have "\<exists>before. validate_url env before u = (Inr (), trace s @ pre)"
    if "new = pre @ Connect u # post" for pre u post
    using in_order_split [of env "trace s" pre "Connect u" post] ord that
    by (simp add: allowed_def)
  moreover have "\<exists>pre' u ks resp. trace s @ pre = pre' @ Connect u # map ReadChunk ks
      \<and> client_stream env pre' u = Response resp \<and> \<not> is_redirect resp"
    if "new = pre @ ReadChunk k # post" for pre k post
    using in_order_split [of env "trace s" pre "ReadChunk k" post] ord that
    by (simp add: allowed_def)
  ultimately show "\<exists>new. trace s' = trace s @ new
         \<and> (\<forall>pre u post. new = pre @ Connect u # post
              \<longrightarrow> (\<exists>before. validate_url env before u = (Inr (), trace s @ pre)))
         \<and> (\<forall>pre k post. new = pre @ ReadChunk k # post
              \<longrightarrow> (\<exists>pre' u ks resp. trace s @ pre = pre' @ Connect u # map ReadChunk ks
                     \<and> client_stream env pre' u = Response resp \<and> \<not> is_redirect resp))"
    using new by (intro exI [of _ new]) simp
next
  assume a: "client_stream env tr u = Response resp \<and> is_redirect resp
       \<and> next_request resp = Some target
       \<and> validate_url env (tr @ [Connect u]) target = (Inl e, tr')"
  then have v: "validate_url env (tr @ [Connect u]) target = (Inl e, tr')" by simp
  from a show l: "redirect_loop env (Suc k) u tr = (Inl e, tr')" for k by simp
  from validate_url_error [OF v] show "\<exists>b. e = BlockedURL b" .
  from validate_url_trace [OF v] show "tr' = tr @ [Connect u] \<or> (\<exists>h. tr' = tr @ [Connect u, Resolve h])"
    by simp
  assume "validate_url env (trace s) u = (Inr (), tr) \<and> (force \<or> fst (get_local_path env s u) = None)"
  then show "fetch env s u force = (Inl e, s\<lparr>trace := tr'\<rparr>)"
    using fetch_loop_error [of env s u tr force] l [of 9] by (simp add: MAX_REDIRECTS_def)
qed

theorem redirects_validated_hop_by_hop_witness:
  "validate_url world [] ''https://public.example.com/paper.pdf''
     = (Inr (), [Resolve ''public.example.com''])
   \<and> fetch world s0 ''https://public.example.com/paper.pdf'' False
     = (Inl (BlockedURL PrivateAddress),
        s0\<lparr>trace := [Resolve ''public.example.com'', Connect ''https://public.example.com/paper.pdf'',
                     Resolve ''169.254.169.254'']\<rparr>)
   \<and> trace (snd (fetch world s0 ''https://example.com/old.pdf'' False))
     = [Resolve ''example.com'', Connect ''https://example.com/old.pdf'',
        Resolve ''cdn.example.com'', Connect ''https://cdn.example.com/new.pdf'', ReadChunk 8]
   \<and> (\<exists>before. validate_url world before ''https://cdn.example.com/new.pdf''
         = (Inr (), [Resolve ''example.com'', Connect ''https://example.com/old.pdf'',
                     Resolve ''cdn.example.com'']))
   \<and> (\<exists>pre' u ks resp.
         [Resolve ''example.com'', Connect ''https://example.com/old.pdf'',
          Resolve ''cdn.example.com'', Connect ''https://cdn.example.com/new.pdf'']
           = pre' @ Connect u # map ReadChunk ks
         \<and> client_stream world pre' u = Response resp \<and> \<not> is_redirect resp)"
proof -
  let ?paper = "''https://public.example.com/paper.pdf''"
  let ?meta = "''http://169.254.169.254/latest/meta-data/''"
  let ?old = "''https://example.com/old.pdf''"
  let ?new = "''https://cdn.example.com/new.pdf''"
  let ?tr = "[Resolve ''public.example.com'']"
  let ?tr' = "[Resolve ''public.example.com'', Connect ?paper, Resolve ''169.254.169.254'']"
  have first: "validate_url world [] ?paper = (Inr (), ?tr)" by code_simp
  have hop: "client_stream world ?tr ?paper = Response (redirect_to ?meta)
      \<and> is_redirect (redirect_to ?meta) \<and> next_request (redirect_to ?meta) = Some ?meta
      \<and> validate_url world (?tr @ [Connect ?paper]) ?meta = (Inl (BlockedURL PrivateAddress), ?tr')"
    by code_simp
  have reach: "validate_url world (trace s0) ?paper = (Inr (), ?tr)
      \<and> (False \<or> fst (get_local_path world s0 ?paper) = None)"
    by code_simp
  from redirects_validated_hop_by_hop
    [where env = world and tr = ?tr and u = ?paper and resp = "redirect_to ?meta"
      and target = ?meta and e = "BlockedURL PrivateAddress" and tr' = ?tr' and k = 9
      and s = s0 and force = False] hop reach
  have blocked: "fetch world s0 ?paper False = (Inl (BlockedURL PrivateAddress), s0\<lparr>trace := ?tr'\<rparr>)"
    by blast
  let ?f = "fetch world s0 ?old False"
  have t: "trace (snd ?f)
      = [Resolve ''example.com'', Connect ?old, Resolve ''cdn.example.com'', Connect ?new, ReadChunk 8]"
    by code_simp
  have "?f = (fst ?f, snd ?f)" by simp
  with redirects_validated_hop_by_hop
    [where env = world and s = s0 and url = ?old and force = False and r = "fst ?f"
      and s' = "snd ?f"]
  obtain new where n: "trace (snd ?f) = trace s0 @ new"
    and g: "\<forall>pre u post. new = pre @ Connect u # post
              \<longrightarrow> (\<exists>before. validate_url world before u = (Inr (), trace s0 @ pre))"
    and b: "\<forall>pre k post. new = pre @ ReadChunk k # post
              \<longrightarrow> (\<exists>pre' u ks resp. trace s0 @ pre = pre' @ Connect u # map ReadChunk ks
                     \<and> client_stream world pre' u = Response resp \<and> \<not> is_redirect resp)"
    by blast
  from n t have "new = [Resolve ''example.com'', Connect ?old, Resolve ''cdn.example.com'']
      @ Connect ?new # [ReadChunk 8]"
    by (simp add: s0_def)
  with g have "\<exists>before. validate_url world before ?new
      = (Inr (), trace s0 @ [Resolve ''example.com'', Connect ?old, Resolve ''cdn.example.com''])"
    by blast
  then have "\<exists>before. validate_url world before ?new
      = (Inr (), [Resolve ''example.com'', Connect ?old, Resolve ''cdn.example.com''])"
    by (simp add: s0_def)
  moreover
  from n t have "new = [Resolve ''example.com'', Connect ?old, Resolve ''cdn.example.com'',
      Connect ?new] @ ReadChunk 8 # []"
    by (simp add: s0_def)
  with b have "\<exists>pre' u ks resp.
      trace s0 @ [Resolve ''example.com'', Connect ?old, Resolve ''cdn.example.com'', Connect ?new]
        = pre' @ Connect u # map ReadChunk ks
      \<and> client_stream world pre' u = Response resp \<and> \<not> is_redirect resp"
    by blast
  then have "\<exists>pre' u ks resp.
      [Resolve ''example.com'', Connect ?old, Resolve ''cdn.example.com'', Connect ?new]
        = pre' @ Connect u # map ReadChunk ks
      \<and> client_stream world pre' u = Response resp \<and> \<not> is_redirect resp"
    by (simp add: s0_def)
  ultimately show ?thesis using first blocked t by (intro conjI)
qed

section \<open>The redirect cap\<close>

text \<open>
  Claim C6. The loop makes at most \<open>MAX_REDIRECTS = 10\<close> requests, one hop at a time. On the
  chain \<^verbatim>\<open>/hop0\<close>, ..., \<^verbatim>\<open>/hop10\<close>, ten redirects and then a PDF, the fetch of
  \<^verbatim>\<open>/hop0\<close> makes ten requests, each answered by a redirect, runs the guard on the tenth
  target \<^verbatim>\<open>/hop10\<close>, which passes, and fails with \<open>TooManyRedirects\<close> without requesting
  it, although \<^verbatim>\<open>/hop10\<close> serves a PDF and one more iteration would have fetched it. The
  chain of nine redirects that starts at \<^verbatim>\<open>/hop1\<close> succeeds. So the code follows at most
  nine redirects, where the claim, and the comment on \<open>MAX_REDIRECTS\<close> in the source
  ("maximum number of HTTP redirects to follow"), allow ten.
\<close>

theorem ten_redirects_rejected:
  "fst (fetch world s0 ''https://example.com/hop0'' False) = Inl TooManyRedirects
   \<and> trace (snd (fetch world s0 ''https://example.com/hop0'' False))
       = [Resolve ''example.com'', Connect ''https://example.com/hop0'',
          Resolve ''example.com'', Connect ''https://example.com/hop1'',
          Resolve ''example.com'', Connect ''https://example.com/hop2'',
          Resolve ''example.com'', Connect ''https://example.com/hop3'',
          Resolve ''example.com'', Connect ''https://example.com/hop4'',
          Resolve ''example.com'', Connect ''https://example.com/hop5'',
          Resolve ''example.com'', Connect ''https://example.com/hop6'',
          Resolve ''example.com'', Connect ''https://example.com/hop7'',
          Resolve ''example.com'', Connect ''https://example.com/hop8'',
          Resolve ''example.com'', Connect ''https://example.com/hop9'',
          Resolve ''example.com'']
   \<and> client_stream world [] ''https://example.com/hop9''
       = Response (redirect_to ''https://example.com/hop10'')
   \<and> fst (validate_url world [] ''https://example.com/hop10'') = Inr ()
   \<and> fst (redirect_loop world 1 ''https://example.com/hop10'' []) = Inr ''%PDF-1.4''
   \<and> fst (redirect_loop world (Suc MAX_REDIRECTS) ''https://example.com/hop0''
            [Resolve ''example.com'']) = Inr ''%PDF-1.4''
   \<and> fst (fetch world s0 ''https://example.com/hop1'' False)
       = Inr [''tmp'', ''pdf-mcp'', ''downloads'', ''600337ca3b1fefe1.pdf'']
   \<and> MAX_REDIRECTS = 10"
  by code_simp

end
